theory Spec2Isabelle
  imports Complex_Main "HOL-Library.Log_Nat"
begin

section \<open>Strings\<close>

text \<open>
  A JavaScript string is modelled as a \<^typ>\<open>string\<close>, one \<^typ>\<open>char\<close> per code unit.
  \<open>split_on c s\<close> is \<^verbatim>\<open>s.split(c)\<close> for a one-character separator: it always returns
  at least one part, and two adjacent separators enclose an empty part.
\<close>

fun split_on :: "char \<Rightarrow> string \<Rightarrow> string list" where
  "split_on c [] = [[]]"
| "split_on c (x # xs) =
     (if x = c then [] # split_on c xs
      else (case split_on c xs of
              [] \<Rightarrow> [[x]]
            | p # ps \<Rightarrow> (x # p) # ps))"

text \<open>\<^verbatim>\<open>s.padStart(n, c)\<close> for a one-character filler.\<close>

definition padStart :: "nat \<Rightarrow> char \<Rightarrow> string \<Rightarrow> string" where
  "padStart n c s = replicate (n - length s) c @ s"

section \<open>The date normalizer\<close>

text \<open>
  \<^verbatim>\<open>parseDate\<close> of the data manager. The \<^verbatim>\<open>switch\<close> on the format tag has three
  groups of cases and no default; every path that does not return inside the
  \<^verbatim>\<open>switch\<close> reaches the final \<^verbatim>\<open>return dateStr\<close>. No operation in the
  \<^verbatim>\<open>try\<close> block throws on strings, so the \<^verbatim>\<open>catch\<close> is never entered.
\<close>

definition parseDate :: "string \<Rightarrow> string \<Rightarrow> string" where
  "parseDate dateStr format =
     (if dateStr = [] then []
      else if format = ''iso'' then
        (let parts = split_on CHR ''-'' dateStr in
         if length parts = 3 then dateStr else dateStr)
      else if format = ''us'' \<or> format = ''us-short'' then
        (let parts = split_on CHR ''/'' dateStr in
         if length parts = 3 then
           (let month = padStart 2 CHR ''0'' (parts ! 0);
                day = padStart 2 CHR ''0'' (parts ! 1);
                year = (if length (parts ! 2) = 2 then ''20'' @ parts ! 2 else parts ! 2)
            in year @ ''-'' @ month @ ''-'' @ day)
         else dateStr)
      else if format = ''eu'' \<or> format = ''eu-short'' then
        (let parts = split_on CHR ''/'' dateStr in
         if length parts = 3 then
           (let day = padStart 2 CHR ''0'' (parts ! 0);
                month = padStart 2 CHR ''0'' (parts ! 1);
                year = (if length (parts ! 2) = 2 then ''20'' @ parts ! 2 else parts ! 2)
            in year @ ''-'' @ month @ ''-'' @ day)
         else dateStr)
      else dateStr)"

text \<open>
  What the specification says of the parts, in its own words: a part of one character gets
  one leading zero (and an empty part two), longer parts stay; a year of exactly two
  characters is prefixed with 20.
\<close>

fun two_digits :: "string \<Rightarrow> string" where
  "two_digits [] = ''00''"
| "two_digits [a] = [CHR ''0'', a]"
| "two_digits p = p"

definition full_year :: "string \<Rightarrow> string" where
  "full_year p = (case p of [a, b] \<Rightarrow> [CHR ''2'', CHR ''0'', a, b] | _ \<Rightarrow> p)"

section \<open>Uploaded files\<close>

text \<open>
  A value read from an object with string values (\<^verbatim>\<open>Record<string, string>\<close>, the column
  mapping, a parsed CSV row) is \<open>Some s\<close>, or \<open>None\<close> for \<^verbatim>\<open>undefined\<close> when the key is
  absent. Such a value is truthy when it is a non-empty string; \<^verbatim>\<open>v || ''\<close> replaces a
  falsy one by the empty string; used as a property key or inside a template literal,
  \<^verbatim>\<open>undefined\<close> reads \<open>undefined\<close>.
\<close>

type_synonym ColumnMapping = "string \<rightharpoonup> string"

type_synonym csv_row = "string \<rightharpoonup> string"

definition truthy :: "string option \<Rightarrow> bool" where
  "truthy v = (case v of None \<Rightarrow> False | Some s \<Rightarrow> s \<noteq> [])"

definition or_empty :: "string option \<Rightarrow> string" where
  "or_empty v = (case v of None \<Rightarrow> [] | Some s \<Rightarrow> s)"

definition js_key :: "string option \<Rightarrow> string" where
  "js_key v = (case v of None \<Rightarrow> ''undefined'' | Some s \<Rightarrow> s)"

text \<open>\<^verbatim>\<open>set.has(v)\<close> on a set of strings, for a value that may be \<^verbatim>\<open>undefined\<close>.\<close>

definition set_has :: "string set \<Rightarrow> string option \<Rightarrow> bool" where
  "set_has S v = (case v of None \<Rightarrow> False | Some s \<Rightarrow> s \<in> S)"

text \<open>
  The values of a GeoJSON feature's properties: null, booleans, integral numbers and
  strings, with JavaScript's truthiness and \<^verbatim>\<open>String(v)\<close>.
\<close>

datatype jsval = JNull | JBool bool | JNum int | JStr string

definition digit :: "nat \<Rightarrow> char" where
  "digit d = ''0123456789'' ! d"

function string_of_nat :: "nat \<Rightarrow> string" where
  "string_of_nat n =
     (if n < 10 then [digit n] else string_of_nat (n div 10) @ [digit (n mod 10)])"
  by pat_completeness auto
termination
  by (relation "measure id") auto

declare string_of_nat.simps [simp del]

definition js_truthy :: "jsval \<Rightarrow> bool" where
  "js_truthy v = (case v of JNull \<Rightarrow> False | JBool b \<Rightarrow> b | JNum n \<Rightarrow> n \<noteq> 0 | JStr s \<Rightarrow> s \<noteq> [])"

definition js_String :: "jsval \<Rightarrow> string" where
  "js_String v =
     (case v of
        JNull \<Rightarrow> ''null''
      | JBool b \<Rightarrow> (if b then ''true'' else ''false'')
      | JNum n \<Rightarrow> (if n < 0 then ''-'' @ string_of_nat (nat (- n)) else string_of_nat (nat n))
      | JStr s \<Rightarrow> s)"

text \<open>
  A feature keeps its properties (absent when \<^verbatim>\<open>properties\<close> is null or undefined); the
  geometry plays no part in validation or in the two exported tables. An uploaded file's
  data is a GeoJSON document or the rows of a CSV file.
\<close>

record Feature =
  properties :: "(string \<rightharpoonup> jsval) option"

datatype GeoJSON = FeatureCollection "Feature list" | SingleFeature Feature

datatype FileData = GeoJSONData GeoJSON | CsvRows "csv_row list"

datatype FileKind = geojson | csv

record UploadedFile =
  uf_name :: string
  uf_data :: FileData
  uf_columns :: "string list"
  uf_mapping :: ColumnMapping
  uf_type :: FileKind

record ValidationResult =
  isValid :: bool
  errors :: "string list"
  warnings :: "string list"
  droppedMeasurements :: nat

text \<open>The state of the data manager that validation and export read.\<close>

record DataManager =
  regionFile :: "UploadedFile option"
  aquiferFile :: "UploadedFile option"
  wellsFile :: "UploadedFile option"
  waterLevelsFile :: "UploadedFile option"
  dateFormat :: string

section \<open>The cross-reference validator\<close>

record RequiredColumn =
  col_key :: string
  col_label :: string
  col_required :: bool

definition getRequiredColumns :: "string \<Rightarrow> RequiredColumn list" where
  "getRequiredColumns fileType =
     (if fileType = ''region'' then []
      else if fileType = ''aquifer'' then
        [\<lparr>col_key = ''aquifer_id'', col_label = ''Aquifer ID'', col_required = True\<rparr>,
         \<lparr>col_key = ''aquifer_name'', col_label = ''Aquifer Name'', col_required = True\<rparr>]
      else if fileType = ''wells'' then
        [\<lparr>col_key = ''well_id'', col_label = ''Well ID'', col_required = True\<rparr>,
         \<lparr>col_key = ''lat'', col_label = ''Latitude'', col_required = True\<rparr>,
         \<lparr>col_key = ''long'', col_label = ''Longitude'', col_required = True\<rparr>,
         \<lparr>col_key = ''aquifer_id'', col_label = ''Aquifer ID'', col_required = False\<rparr>]
      else if fileType = ''waterLevels'' then
        [\<lparr>col_key = ''well_id'', col_label = ''Well ID'', col_required = True\<rparr>,
         \<lparr>col_key = ''date'', col_label = ''Date'', col_required = True\<rparr>,
         \<lparr>col_key = ''wte'', col_label = ''Water Table Elevation'', col_required = True\<rparr>,
         \<lparr>col_key = ''aquifer_id'', col_label = ''Aquifer ID'', col_required = False\<rparr>]
      else [])"

text \<open>
  \<^verbatim>\<open>checkMapping\<close> pushes one error for each required column of the file type whose
  mapping is falsy; the function returns the errors it pushes, in order.
\<close>

fun checkMapping_loop :: "UploadedFile \<Rightarrow> string \<Rightarrow> RequiredColumn list \<Rightarrow> string list" where
  "checkMapping_loop file fileType [] = []"
| "checkMapping_loop file fileType (col # cols) =
     (if \<not> truthy (uf_mapping file (col_key col))
      then (fileType @ '': Missing mapping for '' @ col_label col) # checkMapping_loop file fileType cols
      else checkMapping_loop file fileType cols)"

definition checkMapping :: "UploadedFile \<Rightarrow> string \<Rightarrow> string list" where
  "checkMapping file fileType =
     checkMapping_loop file fileType (filter col_required (getRequiredColumns fileType))"

text \<open>
  The features of a file: those of a feature collection, else the data itself as the one
  feature. Rows of a CSV file have no \<^verbatim>\<open>type\<close> and no \<^verbatim>\<open>properties\<close>.
\<close>

definition features_of :: "FileData \<Rightarrow> Feature list" where
  "features_of d =
     (case d of
        GeoJSONData (FeatureCollection fs) \<Rightarrow> fs
      | GeoJSONData (SingleFeature f) \<Rightarrow> [f]
      | CsvRows rows \<Rightarrow> [\<lparr>properties = None\<rparr>])"

definition feature_prop :: "Feature \<Rightarrow> string option \<Rightarrow> jsval option" where
  "feature_prop f k = (case properties f of None \<Rightarrow> None | Some ps \<Rightarrow> ps (js_key k))"

fun aquiferIds_loop :: "string option \<Rightarrow> Feature list \<Rightarrow> string set \<Rightarrow> string set" where
  "aquiferIds_loop k [] aquiferIds = aquiferIds"
| "aquiferIds_loop k (feature # rest) aquiferIds =
     aquiferIds_loop k rest
       (case feature_prop feature k of
          None \<Rightarrow> aquiferIds
        | Some v \<Rightarrow> if js_truthy v then insert (js_String v) aquiferIds else aquiferIds)"

text \<open>
  Iterating with \<^verbatim>\<open>for ... of\<close> over data that is not an array of rows throws a
  \<^verbatim>\<open>TypeError\<close>.
\<close>

datatype js_error = TypeError

definition csv_rows :: "FileData \<Rightarrow> js_error + csv_row list" where
  "csv_rows d = (case d of CsvRows rows \<Rightarrow> Inr rows | GeoJSONData g \<Rightarrow> Inl TypeError)"

text \<open>
  The loop over the wells: the state is the set \<^verbatim>\<open>wellIds\<close> and the errors pushed so far.
\<close>

fun wells_loop ::
  "string set \<Rightarrow> string option \<Rightarrow> string option \<Rightarrow> csv_row list \<Rightarrow>
   string set \<times> string list \<Rightarrow> string set \<times> string list" where
  "wells_loop aquiferIds wellIdCol wellAqIdCol [] acc = acc"
| "wells_loop aquiferIds wellIdCol wellAqIdCol (well # rest) (wellIds, errs) =
     (let wellId = well (js_key wellIdCol);
          wellIds' = (if truthy wellId then insert (or_empty wellId) wellIds else wellIds);
          errs' =
            (if truthy wellAqIdCol \<and> truthy (well (js_key wellAqIdCol)) then
               (let aqId = or_empty (well (js_key wellAqIdCol)) in
                if aqId \<notin> aquiferIds
                then errs @ [''Well '' @ js_key wellId @ '' references non-existent aquifer '' @ aqId]
                else errs)
             else errs)
      in wells_loop aquiferIds wellIdCol wellAqIdCol rest (wellIds', errs'))"

text \<open>
  The loop over the measurements: the state is \<^verbatim>\<open>validMeasurements\<close> and the counter
  \<^verbatim>\<open>droppedMeasurements\<close>.
\<close>

fun measurements_loop ::
  "string set \<Rightarrow> string option \<Rightarrow> csv_row list \<Rightarrow> csv_row list \<times> nat \<Rightarrow> csv_row list \<times> nat" where
  "measurements_loop wellIds wlWellIdCol [] acc = acc"
| "measurements_loop wellIds wlWellIdCol (measurement # rest) (validMeasurements, dropped) =
     (if set_has wellIds (measurement (js_key wlWellIdCol))
      then measurements_loop wellIds wlWellIdCol rest (validMeasurements @ [measurement], dropped)
      else measurements_loop wellIds wlWellIdCol rest (validMeasurements, dropped + 1))"

definition missing_file_errors :: "DataManager \<Rightarrow> string list" where
  "missing_file_errors st =
     (if regionFile st = None then [''Region file is required''] else []) @
     (if aquiferFile st = None then [''Aquifer file is required''] else []) @
     (if wellsFile st = None then [''Wells file is required''] else []) @
     (if waterLevelsFile st = None then [''Water levels file is required''] else [])"

definition no_aquifer_column_warning :: string where
  "no_aquifer_column_warning =
     ''Wells file has no aquifer_id column. Point-in-polygon assignment will be attempted.''"

definition dropped_warning :: "nat \<Rightarrow> string" where
  "dropped_warning n =
     string_of_nat n @ '' measurements reference non-existent wells and will be dropped''"

text \<open>
  The referential stage of \<^verbatim>\<open>validateData\<close>, reached when the four files are present
  and no required mapping is missing.
\<close>

definition referential_checks ::
  "UploadedFile \<Rightarrow> UploadedFile \<Rightarrow> UploadedFile \<Rightarrow> js_error + ValidationResult" where
  "referential_checks aquiferF wellsF levelsF =
     (let aquiferIds = aquiferIds_loop (uf_mapping aquiferF ''aquifer_id'') (features_of (uf_data aquiferF)) {};
          wellIdCol = uf_mapping wellsF ''well_id'';
          wellAqIdCol = uf_mapping wellsF ''aquifer_id''
      in case csv_rows (uf_data wellsF) of
           Inl e \<Rightarrow> Inl e
         | Inr wellsData \<Rightarrow>
             (let (wellIds, errs) = wells_loop aquiferIds wellIdCol wellAqIdCol wellsData ({}, []);
                  warns = (if \<not> truthy wellAqIdCol then [no_aquifer_column_warning] else []);
                  wlWellIdCol = uf_mapping levelsF ''well_id''
              in case csv_rows (uf_data levelsF) of
                   Inl e \<Rightarrow> Inl e
                 | Inr waterLevelsData \<Rightarrow>
                     (let (validMeasurements, dropped) =
                            measurements_loop wellIds wlWellIdCol waterLevelsData ([], 0);
                          warns' = (if dropped > 0 then warns @ [dropped_warning dropped] else warns)
                      in Inr \<lparr>isValid = (length errs = 0), errors = errs, warnings = warns',
                              droppedMeasurements = dropped\<rparr>)))"

definition validateData :: "DataManager \<Rightarrow> js_error + ValidationResult" where
  "validateData st =
     (let errs = missing_file_errors st in
      if length errs > 0 then
        Inr \<lparr>isValid = False, errors = errs, warnings = [], droppedMeasurements = 0\<rparr>
      else
        (let aquiferF = the (aquiferFile st); wellsF = the (wellsFile st); levelsF = the (waterLevelsFile st);
             errs' = errs @ checkMapping aquiferF ''aquifer'' @ checkMapping wellsF ''wells'' @
                     checkMapping levelsF ''waterLevels''
         in if length errs' > 0 then
              Inr \<lparr>isValid = False, errors = errs', warnings = [], droppedMeasurements = 0\<rparr>
            else referential_checks aquiferF wellsF levelsF))"

section \<open>The canonical exporter\<close>

text \<open>
  Of \<^verbatim>\<open>processData\<close>, the two tables it builds from the CSV files: the wells table and
  the water levels table. The function stops after validation when the result is not
  valid; an exception of validation leaves it, and one raised while the tables are built
  is caught and logged, and nothing is exported.
\<close>

record ProcessedWell =
  pw_well_id :: string
  pw_lat :: string
  pw_long :: string
  pw_aquifer_id :: string

record ProcessedWaterLevel =
  pl_well_id :: string
  pl_date :: string
  pl_wte :: string
  pl_aquifer_id :: string

record ExportTables =
  processedWells :: "ProcessedWell list"
  processedWaterLevels :: "ProcessedWaterLevel list"

definition processWells :: "ColumnMapping \<Rightarrow> csv_row list \<Rightarrow> ProcessedWell list" where
  "processWells wmap wellsData =
     (let wellIdCol = wmap ''well_id''; latCol = wmap ''lat''; longCol = wmap ''long'';
          wellAqIdCol = wmap ''aquifer_id''
      in filter (\<lambda>w. pw_well_id w \<noteq> [] \<and> pw_lat w \<noteq> [] \<and> pw_long w \<noteq> [])
           (map (\<lambda>w. \<lparr>pw_well_id = or_empty (w (js_key wellIdCol)),
                       pw_lat = or_empty (w (js_key latCol)),
                       pw_long = or_empty (w (js_key longCol)),
                       pw_aquifer_id =
                         (if truthy wellAqIdCol then or_empty (w (js_key wellAqIdCol)) else [])\<rparr>)
              wellsData))"

definition processWaterLevels ::
  "string \<Rightarrow> ColumnMapping \<Rightarrow> ProcessedWell list \<Rightarrow> csv_row list \<Rightarrow> ProcessedWaterLevel list" where
  "processWaterLevels fmt lmap wells waterLevelsData =
     (let wlWellIdCol = lmap ''well_id''; dateCol = lmap ''date''; wteCol = lmap ''wte'';
          wlAqIdCol = lmap ''aquifer_id'';
          wellIdSet = set (map pw_well_id wells)
      in map (\<lambda>m. \<lparr>pl_well_id = or_empty (m (js_key wlWellIdCol)),
                    pl_date = parseDate (or_empty (m (js_key dateCol))) fmt,
                    pl_wte = or_empty (m (js_key wteCol)),
                    pl_aquifer_id =
                      (if truthy wlAqIdCol then or_empty (m (js_key wlAqIdCol)) else [])\<rparr>)
           (filter (\<lambda>m. set_has wellIdSet (m (js_key wlWellIdCol))) waterLevelsData))"

definition processData :: "DataManager \<Rightarrow> js_error + ExportTables option" where
  "processData st =
     (case validateData st of
        Inl e \<Rightarrow> Inl e
      | Inr result \<Rightarrow>
          if \<not> isValid result then Inr None
          else
            (let wellsF = the (wellsFile st); levelsF = the (waterLevelsFile st)
             in case (csv_rows (uf_data wellsF), csv_rows (uf_data levelsF)) of
                  (Inr wellsData, Inr waterLevelsData) \<Rightarrow>
                    (let wells = processWells (uf_mapping wellsF) wellsData
                     in Inr (Some \<lparr>processedWells = wells,
                                    processedWaterLevels =
                                      processWaterLevels (dateFormat st) (uf_mapping levelsF) wells
                                        waterLevelsData\<rparr>))
                | _ \<Rightarrow> Inr None))"

section \<open>Numbers\<close>

text \<open>
  A JavaScript number is a finite value, one of the two infinities, or NaN. The sign of
  zero is not kept: \<open>Fin 0\<close> stands for both zeros, and a division by zero takes it as
  the positive one.

  Every arithmetic operation computes the exact result and rounds it with a rounding
  function \<open>rd\<close>. The program runs with \<open>binary64\<close>, IEEE 754 double precision, rounding
  to nearest, ties to even, defined below; \<open>Fin\<close> as the rounding function is exact real
  arithmetic.
\<close>

datatype jsnum = Fin real | PInf | NInf | NaN

type_synonym rounding = "real \<Rightarrow> jsnum"

fun isFinite :: "jsnum \<Rightarrow> bool" where
  "isFinite (Fin u) = True"
| "isFinite a = False"

fun isNaN :: "jsnum \<Rightarrow> bool" where
  "isNaN NaN = True"
| "isNaN a = False"

fun jneg :: "jsnum \<Rightarrow> jsnum" where
  "jneg (Fin u) = Fin (- u)"
| "jneg PInf = NInf"
| "jneg NInf = PInf"
| "jneg NaN = NaN"

fun jadd :: "rounding \<Rightarrow> jsnum \<Rightarrow> jsnum \<Rightarrow> jsnum" where
  "jadd rd NaN b = NaN"
| "jadd rd a NaN = NaN"
| "jadd rd (Fin u) (Fin v) = rd (u + v)"
| "jadd rd PInf NInf = NaN"
| "jadd rd NInf PInf = NaN"
| "jadd rd PInf b = PInf"
| "jadd rd a PInf = PInf"
| "jadd rd NInf b = NInf"
| "jadd rd a NInf = NInf"

definition jsub :: "rounding \<Rightarrow> jsnum \<Rightarrow> jsnum \<Rightarrow> jsnum" where
  "jsub rd a b = jadd rd a (jneg b)"

text \<open>The sign of a non-zero product or quotient with an infinite operand.\<close>

fun is_negative :: "jsnum \<Rightarrow> bool" where
  "is_negative (Fin u) = (u < 0)"
| "is_negative NInf = True"
| "is_negative a = False"

definition signed_inf :: "bool \<Rightarrow> jsnum" where
  "signed_inf negative = (if negative then NInf else PInf)"

fun jmul :: "rounding \<Rightarrow> jsnum \<Rightarrow> jsnum \<Rightarrow> jsnum" where
  "jmul rd NaN b = NaN"
| "jmul rd a NaN = NaN"
| "jmul rd (Fin u) (Fin v) = rd (u * v)"
| "jmul rd (Fin u) b = (if u = 0 then NaN else signed_inf (is_negative (Fin u) \<noteq> is_negative b))"
| "jmul rd a (Fin v) = (if v = 0 then NaN else signed_inf (is_negative a \<noteq> is_negative (Fin v)))"
| "jmul rd a b = signed_inf (is_negative a \<noteq> is_negative b)"

fun jdiv :: "rounding \<Rightarrow> jsnum \<Rightarrow> jsnum \<Rightarrow> jsnum" where
  "jdiv rd NaN b = NaN"
| "jdiv rd a NaN = NaN"
| "jdiv rd (Fin u) (Fin v) =
     (if v \<noteq> 0 then rd (u / v)
      else if u = 0 then NaN else signed_inf (u < 0))"
| "jdiv rd (Fin u) b = Fin 0"
| "jdiv rd a (Fin v) = signed_inf (is_negative a \<noteq> is_negative (Fin v))"
| "jdiv rd a b = NaN"

text \<open>Comparisons: every comparison with NaN is false.\<close>

fun jlt :: "jsnum \<Rightarrow> jsnum \<Rightarrow> bool" where
  "jlt NaN b = False"
| "jlt a NaN = False"
| "jlt (Fin u) (Fin v) = (u < v)"
| "jlt a NInf = False"
| "jlt PInf b = False"
| "jlt a b = True"

fun jeq :: "jsnum \<Rightarrow> jsnum \<Rightarrow> bool" where
  "jeq NaN b = False"
| "jeq a NaN = False"
| "jeq a b = (a = b)"

definition jle :: "jsnum \<Rightarrow> jsnum \<Rightarrow> bool" where
  "jle a b = (jlt a b \<or> jeq a b)"

definition jge :: "jsnum \<Rightarrow> jsnum \<Rightarrow> bool" where
  "jge a b = jle b a"

definition jgt :: "jsnum \<Rightarrow> jsnum \<Rightarrow> bool" where
  "jgt a b = jlt b a"

subsection \<open>Rounding to double precision\<close>

text \<open>
  \<open>ilog2 n\<close> is the position of the highest bit of \<open>n\<close>, and \<open>expo a\<close> the binary exponent
  of a positive real: \<open>2 powi expo a \<le> a < 2 powi (expo a + 1)\<close>.
\<close>

function ilog2 :: "nat \<Rightarrow> nat" where
  "ilog2 n = (if n < 2 then 0 else Suc (ilog2 (n div 2)))"
  by pat_completeness auto
termination
  by (relation "measure id") auto

declare ilog2.simps [simp del]

definition expo :: "real \<Rightarrow> int" where
  "expo a =
     (if 1 \<le> a then int (ilog2 (nat \<lfloor>a\<rfloor>))
      else - int (ilog2 (nat (\<lceil>1 / a\<rceil> - 1))) - 1)"

definition round_even :: "real \<Rightarrow> int" where
  "round_even x =
     (let f = \<lfloor>x\<rfloor>; d = x - of_int f
      in if d < 1 / 2 then f
         else if 1 / 2 < d then f + 1
         else if even f then f else f + 1)"

text \<open>
  A double has 53 significant bits and a binary exponent from -1022 to 1023; below the
  smallest normal number the spacing stays at \<open>2 powi (-1074)\<close>, and a result that rounds
  to \<open>2 powi 1024\<close> or more is an infinity.
\<close>

definition binary64 :: rounding where
  "binary64 x =
     (if x = 0 then Fin 0
      else
        (let a = \<bar>x\<bar>;
             e = max (expo a) (- 1022);
             q = 2 powi (e - 52);
             r = of_int (round_even (a / q)) * q
         in if 2 powi 1024 \<le> r then signed_inf (x < 0)
            else Fin (if x < 0 then - r else r)))"

subsection \<open>Reading a number\<close>

text \<open>
  White space as \<^verbatim>\<open>trim\<close> and \<^verbatim>\<open>parseFloat\<close> see it: tab, line feed, vertical tab, form
  feed, carriage return, space and the no-break space.
\<close>

definition is_space :: "char \<Rightarrow> bool" where
  "is_space c = (of_char c \<in> {9, 10, 11, 12, 13, 32, 160 :: nat})"

definition trim :: "string \<Rightarrow> string" where
  "trim s = rev (dropWhile is_space (rev (dropWhile is_space s)))"

definition is_digit :: "char \<Rightarrow> bool" where
  "is_digit c = (48 \<le> (of_char c :: nat) \<and> (of_char c :: nat) \<le> 57)"

definition digits_val :: "string \<Rightarrow> nat" where
  "digits_val ds = foldl (\<lambda>a c. 10 * a + (of_char c - 48)) 0 ds"

text \<open>
  The value of an exponent part at the head of a string: \<open>e\<close> or \<open>E\<close>, an optional sign,
  and at least one digit. Anything else is no exponent part, and counts as exponent zero.
\<close>

definition exponent_part :: "string \<Rightarrow> int" where
  "exponent_part s =
     (case s of
        [] \<Rightarrow> 0
      | c # r \<Rightarrow>
          if c = CHR ''e'' \<or> c = CHR ''E'' then
            (case r of
               [] \<Rightarrow> 0
             | d # r' \<Rightarrow>
                 if d = CHR ''-'' then
                   (if takeWhile is_digit r' = [] then 0
                    else - int (digits_val (takeWhile is_digit r')))
                 else if d = CHR ''+'' then
                   (if takeWhile is_digit r' = [] then 0
                    else int (digits_val (takeWhile is_digit r')))
                 else
                   (if takeWhile is_digit r = [] then 0
                    else int (digits_val (takeWhile is_digit r))))
          else 0)"

text \<open>
  \<^verbatim>\<open>parseFloat\<close> of the language: leading white space is skipped, then the longest prefix
  that is a decimal literal is read (a sign, then \<open>Infinity\<close> or digits with an optional
  fraction and exponent part), and its value is rounded to a double; when no prefix is a
  decimal literal the result is NaN.
\<close>

definition parseFloat :: "string \<Rightarrow> jsnum" where
  "parseFloat input =
     (let s = dropWhile is_space input;
          negative = (s \<noteq> [] \<and> hd s = CHR ''-'');
          body = (if s \<noteq> [] \<and> (hd s = CHR ''-'' \<or> hd s = CHR ''+'') then tl s else s)
      in if take 8 body = ''Infinity'' then signed_inf negative
         else
           (let ip = takeWhile is_digit body;
                r1 = dropWhile is_digit body;
                fp = (case r1 of [] \<Rightarrow> [] | c # r \<Rightarrow> if c = CHR ''.'' then takeWhile is_digit r else []);
                r2 = (case r1 of [] \<Rightarrow> [] | c # r \<Rightarrow> if c = CHR ''.'' then dropWhile is_digit r else r1)
            in if ip = [] \<and> fp = [] then NaN
               else
                 (let v = real (digits_val (ip @ fp)) *
                          10 powi (exponent_part r2 - int (length fp))
                  in binary64 (if negative then - v else v))))"

section \<open>The data loader\<close>

text \<open>
  \<^verbatim>\<open>parseCSV\<close> of the data loader: the non-blank lines of the text, the first one giving
  the delimiter and the headers; every later line becomes a row that maps each header to
  the trimmed value at its position, or to the empty string when the line is too short.
\<close>

fun build_row :: "string list \<Rightarrow> string list \<Rightarrow> nat \<Rightarrow> csv_row \<Rightarrow> csv_row" where
  "build_row [] values idx row = row"
| "build_row (header # headers) values idx row =
     build_row headers values (Suc idx)
       (row(header \<mapsto> (if idx < length values then trim (values ! idx) else [])))"

definition parseCSV :: "string \<Rightarrow> csv_row list" where
  "parseCSV text =
     (let lines = filter (\<lambda>line. trim line \<noteq> []) (split_on (CHR 0x0A) text)
      in if length lines < 2 then []
         else
           (let firstLine = lines ! 0;
                delimiter = (if CHR 0x09 \<in> set firstLine then CHR 0x09 else CHR '','');
                headers = map trim (split_on delimiter (lines ! 0))
            in map (\<lambda>line. build_row headers (split_on delimiter line) 0 Map.empty)
                 (drop 1 lines)))"

text \<open>\<^verbatim>\<open>v || d\<close> for a value read from a row.\<close>

definition or_default :: "string option \<Rightarrow> string \<Rightarrow> string" where
  "or_default v d = (if truthy v then or_empty v else d)"

record Well =
  w_id :: string
  w_name :: string
  w_lat :: jsnum
  w_lng :: jsnum
  w_gse :: jsnum
  w_aquiferId :: string
  w_aquiferName :: string
  w_regionId :: string

record Measurement =
  m_wellId :: string
  m_wellName :: string
  m_date :: string
  m_wte :: jsnum
  m_aquiferId :: string

text \<open>
  The loop of \<^verbatim>\<open>loadWells\<close> over the rows, with the list \<^verbatim>\<open>wells\<close> built so far.
\<close>

fun loadWells_loop :: "string \<Rightarrow> csv_row list \<Rightarrow> Well list \<Rightarrow> Well list" where
  "loadWells_loop regionId [] wells = wells"
| "loadWells_loop regionId (row # rows) wells =
     (let wellId = or_default (row ''well_id'') [];
          wellName = or_default (row ''well_name'') wellId;
          lat = parseFloat (or_default (row ''lat'') ''0'');
          lng = parseFloat (or_default (row ''long'') ''0'');
          gse = parseFloat (or_default (row ''gse'') ''0'');
          aquiferId = or_default (row ''aquifer_id'') [];
          aquiferName = or_default (row ''aquifer_name'') []
      in loadWells_loop regionId rows
           (if wellId \<noteq> [] \<and> \<not> isNaN lat \<and> \<not> isNaN lng \<and> \<not> jeq lat (Fin 0) \<and> \<not> jeq lng (Fin 0)
            then wells @ [\<lparr>w_id = wellId, w_name = wellName, w_lat = lat, w_lng = lng,
                            w_gse = gse, w_aquiferId = aquiferId, w_aquiferName = aquiferName,
                            w_regionId = regionId\<rparr>]
            else wells))"

text \<open>
  \<^verbatim>\<open>loadWells\<close> and \<^verbatim>\<open>loadMeasurements\<close> fetch a file of the region. The response is
  the text of the file, or \<open>None\<close> when the response is not ok or the fetch fails; then the
  list is empty.
\<close>

definition loadWells :: "string option \<Rightarrow> string \<Rightarrow> Well list" where
  "loadWells response regionId =
     (case response of
        None \<Rightarrow> []
      | Some text \<Rightarrow> loadWells_loop regionId (parseCSV text) [])"

fun loadMeasurements_loop :: "csv_row list \<Rightarrow> Measurement list \<Rightarrow> Measurement list" where
  "loadMeasurements_loop [] measurements = measurements"
| "loadMeasurements_loop (row # rows) measurements =
     (let wellId = or_default (row ''well_id'') [];
          wellName = or_default (row ''well_name'') [];
          date = or_default (row ''date'') [];
          wte = parseFloat (or_default (row ''wte'') ''0'');
          aquiferId = or_default (row ''aquifer_id'') []
      in loadMeasurements_loop rows
           (if wellId \<noteq> [] \<and> date \<noteq> [] \<and> \<not> isNaN wte
            then measurements @ [\<lparr>m_wellId = wellId, m_wellName = wellName, m_date = date,
                                   m_wte = wte, m_aquiferId = aquiferId\<rparr>]
            else measurements))"

definition loadMeasurements :: "string option \<Rightarrow> string \<Rightarrow> Measurement list" where
  "loadMeasurements response regionId =
     (case response of
        None \<Rightarrow> []
      | Some text \<Rightarrow> loadMeasurements_loop (parseCSV text) [])"

section \<open>The interpolation engine\<close>

text \<open>
  An array read \<^verbatim>\<open>a[i]\<close>. Past the end the read yields \<^verbatim>\<open>undefined\<close>, which every
  operation on numbers used here treats as NaN.
\<close>

definition item :: "jsnum list \<Rightarrow> nat \<Rightarrow> jsnum" where
  "item a i = (if i < length a then a ! i else NaN)"

text \<open>
  Both strategies start with the same loop, which fills the interval lengths \<^verbatim>\<open>h\<close> and
  the secant slopes \<^verbatim>\<open>delta\<close>, the slope of an interval of length zero being 0.
\<close>

definition intervals :: "rounding \<Rightarrow> jsnum list \<Rightarrow> jsnum list" where
  "intervals rd x = map (\<lambda>i. jsub rd (item x (i + 1)) (item x i)) [0..<length x - 1]"

definition secants :: "rounding \<Rightarrow> jsnum list \<Rightarrow> jsnum list \<Rightarrow> jsnum list \<Rightarrow> jsnum list" where
  "secants rd x y h =
     map (\<lambda>i. if jeq (item h i) (Fin 0) then Fin 0
              else jdiv rd (jsub rd (item y (i + 1)) (item y i)) (item h i))
       [0..<length x - 1]"

text \<open>
  Both strategies find the interval of a target with the same loop:
  \<^verbatim>\<open>let i = 0; while (i < n - 2 && x[i + 1] < tx) i++;\<close>
\<close>

function find_interval :: "jsnum list \<Rightarrow> nat \<Rightarrow> jsnum \<Rightarrow> nat \<Rightarrow> nat" where
  "find_interval x n tx i =
     (if i < n - 2 \<and> jlt (item x (i + 1)) tx then find_interval x n tx (i + 1) else i)"
  by pat_completeness auto
termination
  by (relation "measure (\<lambda>(x, n, tx, i). n - i)") auto

declare find_interval.simps [simp del]

subsection \<open>Strategy A: the monotone cubic of the first module\<close>

text \<open>
  The tangent at an interior sample \<open>i\<close>, as the loop over \<open>1 \<le> i < n - 1\<close> computes it.
\<close>

definition slope_at :: "rounding \<Rightarrow> jsnum list \<Rightarrow> jsnum list \<Rightarrow> nat \<Rightarrow> jsnum" where
  "slope_at rd h delta i =
     (if jle (jmul rd (item delta (i - 1)) (item delta i)) (Fin 0) then Fin 0
      else
        (let w1 = jadd rd (jmul rd (Fin 2) (item h i)) (item h (i - 1));
             w2 = jadd rd (item h i) (jmul rd (Fin 2) (item h (i - 1)));
             denom = jadd rd (jdiv rd w1 (item delta (i - 1))) (jdiv rd w2 (item delta i))
         in if \<not> isFinite denom \<or> jeq denom (Fin 0) then Fin 0
            else jdiv rd (jadd rd w1 w2) denom))"

text \<open>
  The array \<^verbatim>\<open>m\<close> of tangents, for \<open>n \<ge> 2\<close>: the loop sets the interior entries, and the
  two assignments after it set the first and the last entry.
\<close>

definition slopes :: "rounding \<Rightarrow> nat \<Rightarrow> jsnum list \<Rightarrow> jsnum list \<Rightarrow> jsnum list" where
  "slopes rd n h delta =
     map (\<lambda>i. if i = 0 then (if isFinite (item delta 0) then item delta 0 else Fin 0)
              else if i = n - 1 then (if isFinite (item delta (n - 2)) then item delta (n - 2) else Fin 0)
              else slope_at rd h delta i)
       [0..<n]"

text \<open>The value in interval \<open>i\<close>, with the four Hermite basis functions.\<close>

definition hermite ::
  "rounding \<Rightarrow> jsnum list \<Rightarrow> jsnum list \<Rightarrow> jsnum list \<Rightarrow> jsnum list \<Rightarrow> nat \<Rightarrow> jsnum \<Rightarrow> jsnum" where
  "hermite rd x y h m i tx =
     (if jeq (item h i) (Fin 0) then item y i
      else
        (let t = jdiv rd (jsub rd tx (item x i)) (item h i);
             t2 = jmul rd t t;
             t3 = jmul rd t2 t;
             h00 = jadd rd (jsub rd (jmul rd (Fin 2) t3) (jmul rd (Fin 3) t2)) (Fin 1);
             h10 = jadd rd (jsub rd t3 (jmul rd (Fin 2) t2)) t;
             h01 = jadd rd (jmul rd (Fin (- 2)) t3) (jmul rd (Fin 3) t2);
             h11 = jsub rd t3 t2;
             result =
               jadd rd
                 (jadd rd
                    (jadd rd (jmul rd h00 (item y i)) (jmul rd (jmul rd h10 (item h i)) (item m i)))
                    (jmul rd h01 (item y (i + 1))))
                 (jmul rd (jmul rd h11 (item h i)) (item m (i + 1)))
         in if isFinite result then result else item y i))"

definition interpolatePCHIP_A :: "rounding \<Rightarrow> jsnum list \<Rightarrow> jsnum list \<Rightarrow> jsnum list \<Rightarrow> jsnum list" where
  "interpolatePCHIP_A rd x y targetX =
     (let n = length x in
      if n < 2 then map (\<lambda>tx. if n = 1 then item y 0 else Fin 0) targetX
      else
        (let h = intervals rd x;
             delta = secants rd x y h;
             m = slopes rd n h delta
         in map (\<lambda>tx. if jle tx (item x 0) then item y 0
                       else if jge tx (item x (n - 1)) then item y (n - 1)
                       else hermite rd x y h m (find_interval x n tx 0) tx)
              targetX))"

subsection \<open>Strategy B: the natural cubic spline of the interpolation module\<close>

text \<open>
  The tridiagonal system, for \<open>n \<ge> 3\<close>: the arrays are filled with zeros, \<^verbatim>\<open>b[0]\<close> and
  \<^verbatim>\<open>b[n - 1]\<close> are set to 1, and the loop sets the interior rows.
\<close>

definition sub_diag :: "nat \<Rightarrow> jsnum list \<Rightarrow> jsnum list" where
  "sub_diag n h = map (\<lambda>i. if 1 \<le> i \<and> i < n - 1 then item h (i - 1) else Fin 0) [0..<n]"

definition main_diag :: "rounding \<Rightarrow> nat \<Rightarrow> jsnum list \<Rightarrow> jsnum list" where
  "main_diag rd n h =
     map (\<lambda>i. if 1 \<le> i \<and> i < n - 1 then jmul rd (Fin 2) (jadd rd (item h (i - 1)) (item h i))
              else Fin 1)
       [0..<n]"

definition super_diag :: "nat \<Rightarrow> jsnum list \<Rightarrow> jsnum list" where
  "super_diag n h = map (\<lambda>i. if 1 \<le> i \<and> i < n - 1 then item h i else Fin 0) [0..<n]"

definition rhs :: "rounding \<Rightarrow> nat \<Rightarrow> jsnum list \<Rightarrow> jsnum list" where
  "rhs rd n delta =
     map (\<lambda>i. if 1 \<le> i \<and> i < n - 1
              then jmul rd (Fin 6) (jsub rd (item delta i) (item delta (i - 1)))
              else Fin 0)
       [0..<n]"

text \<open>
  Forward elimination updates \<^verbatim>\<open>b\<close> and \<^verbatim>\<open>d\<close> in place, skipping a row whose pivot is
  zero; back substitution fills \<^verbatim>\<open>m\<close>, which starts as zeros, from the last row down.
\<close>

definition forward_step ::
  "rounding \<Rightarrow> jsnum list \<Rightarrow> jsnum list \<Rightarrow> jsnum list \<times> jsnum list \<Rightarrow> nat \<Rightarrow>
   jsnum list \<times> jsnum list" where
  "forward_step rd a c bd i =
     (let b = fst bd; d = snd bd in
      if jeq (item b (i - 1)) (Fin 0) then (b, d)
      else
        (let w = jdiv rd (item a i) (item b (i - 1))
         in (b[i := jsub rd (item b i) (jmul rd w (item c (i - 1)))],
             d[i := jsub rd (item d i) (jmul rd w (item d (i - 1)))])))"

definition back_step ::
  "rounding \<Rightarrow> jsnum list \<Rightarrow> jsnum list \<Rightarrow> jsnum list \<Rightarrow> jsnum list \<Rightarrow> nat \<Rightarrow> jsnum list" where
  "back_step rd b c d m i =
     (if \<not> jeq (item b i) (Fin 0)
      then m[i := jdiv rd (jsub rd (item d i) (jmul rd (item c i) (item m (i + 1)))) (item b i)]
      else m)"

definition second_derivatives ::
  "rounding \<Rightarrow> nat \<Rightarrow> jsnum list \<Rightarrow> jsnum list \<Rightarrow> jsnum list" where
  "second_derivatives rd n h delta =
     (let a = sub_diag n h; c = super_diag n h;
          bd = foldl (forward_step rd a c) (main_diag rd n h, rhs rd n delta) [1..<n];
          b = fst bd; d = snd bd;
          m0 = replicate n (Fin 0);
          m1 = (if \<not> jeq (item b (n - 1)) (Fin 0)
                then m0[n - 1 := jdiv rd (item d (n - 1)) (item b (n - 1))] else m0)
      in foldl (back_step rd b c d) m1 (rev [0..<n - 1]))"

text \<open>The value in interval \<open>i\<close>, with the cubic in \<open>t = tx - x[i]\<close>.\<close>

definition spline_value ::
  "rounding \<Rightarrow> jsnum list \<Rightarrow> jsnum list \<Rightarrow> jsnum list \<Rightarrow> jsnum list \<Rightarrow> jsnum list \<Rightarrow> nat \<Rightarrow>
   jsnum \<Rightarrow> jsnum" where
  "spline_value rd x y h delta m i tx =
     (if jeq (item h i) (Fin 0) then item y i
      else
        (let t = jsub rd tx (item x i);
             hi = item h i;
             a_coef = jdiv rd (jsub rd (item m (i + 1)) (item m i)) (jmul rd (Fin 6) hi);
             b_coef = jdiv rd (item m i) (Fin 2);
             c_coef =
               jsub rd (item delta i)
                 (jdiv rd (jmul rd hi (jadd rd (jmul rd (Fin 2) (item m i)) (item m (i + 1)))) (Fin 6));
             d_coef = item y i;
             result =
               jadd rd
                 (jadd rd
                    (jadd rd (jmul rd (jmul rd (jmul rd a_coef t) t) t) (jmul rd (jmul rd b_coef t) t))
                    (jmul rd c_coef t))
                 d_coef
         in if isFinite result then result else item y i))"

definition interpolatePCHIP_B :: "rounding \<Rightarrow> jsnum list \<Rightarrow> jsnum list \<Rightarrow> jsnum list \<Rightarrow> jsnum list" where
  "interpolatePCHIP_B rd x y targetX =
     (let n = length x in
      if n < 2 then map (\<lambda>tx. if n = 1 then item y 0 else Fin 0) targetX
      else if n = 2 then
        (let slope = jdiv rd (jsub rd (item y 1) (item y 0)) (jsub rd (item x 1) (item x 0))
         in map (\<lambda>tx. if jle tx (item x 0) then item y 0
                       else if jge tx (item x 1) then item y 1
                       else jadd rd (item y 0) (jmul rd slope (jsub rd tx (item x 0))))
              targetX)
      else
        (let h = intervals rd x;
             delta = secants rd x y h;
             m = second_derivatives rd n h delta
         in map (\<lambda>tx. if jle tx (item x 0) then item y 0
                       else if jge tx (item x (n - 1)) then item y (n - 1)
                       else spline_value rd x y h delta m (find_interval x n tx 0) tx)
              targetX))"

section \<open>Sets of well identifiers, and example uploads\<close>

text \<open>
  The identifiers the validator collects from the wells file: the non-empty values of the
  column mapped to \<open>well_id\<close>.
\<close>

definition known_well_ids :: "UploadedFile \<Rightarrow> csv_row list \<Rightarrow> string set" where
  "known_well_ids wellsF wellsData =
     {s. s \<noteq> [] \<and> (\<exists>w\<in>set wellsData. w (js_key (uf_mapping wellsF ''well_id'')) = Some s)}"

text \<open>
  The accepted wells in the words of the specification: a well row is accepted when its
  identifier is non-empty and its required fields, latitude and longitude, are present.
  The export keeps the wells with exactly these identifiers.
\<close>

definition accepted_well_ids :: "ColumnMapping \<Rightarrow> csv_row list \<Rightarrow> string set" where
  "accepted_well_ids wmap wellsData =
     set (map (\<lambda>w. or_empty (w (js_key (wmap ''well_id''))))
       (filter (\<lambda>w. truthy (w (js_key (wmap ''well_id''))) \<and> truthy (w (js_key (wmap ''lat''))) \<and>
                    truthy (w (js_key (wmap ''long''))))
          wellsData))"

text \<open>Example uploads, for the concrete evaluations below.\<close>

definition geo_file :: "ColumnMapping \<Rightarrow> Feature list \<Rightarrow> UploadedFile" where
  "geo_file cm fs =
     \<lparr>uf_name = ''upload.geojson'', uf_data = GeoJSONData (FeatureCollection fs),
      uf_columns = [], uf_mapping = cm, uf_type = geojson\<rparr>"

definition csv_file :: "ColumnMapping \<Rightarrow> csv_row list \<Rightarrow> UploadedFile" where
  "csv_file cm rows =
     \<lparr>uf_name = ''upload.csv'', uf_data = CsvRows rows,
      uf_columns = [], uf_mapping = cm, uf_type = csv\<rparr>"

definition aquifer_map :: ColumnMapping where
  "aquifer_map = [''aquifer_id'' \<mapsto> ''AQ_ID'', ''aquifer_name'' \<mapsto> ''AQ_NAME'']"

definition wells_map :: ColumnMapping where
  "wells_map = [''well_id'' \<mapsto> ''well_id'', ''lat'' \<mapsto> ''lat'', ''long'' \<mapsto> ''long'']"

definition levels_map :: ColumnMapping where
  "levels_map = [''well_id'' \<mapsto> ''well_id'', ''date'' \<mapsto> ''date'', ''wte'' \<mapsto> ''wte'']"

definition two_files_missing :: DataManager where
  "two_files_missing =
     \<lparr>regionFile = None, aquiferFile = Some (geo_file aquifer_map []), wellsFile = None,
      waterLevelsFile = Some (csv_file levels_map []), dateFormat = ''iso''\<rparr>"

definition three_mappings_missing :: DataManager where
  "three_mappings_missing =
     \<lparr>regionFile = Some (geo_file Map.empty []),
      aquiferFile = Some (geo_file aquifer_map []),
      wellsFile = Some (geo_file [''well_id'' \<mapsto> ''id'', ''lat'' \<mapsto> []] []),
      waterLevelsFile = Some (csv_file [''well_id'' \<mapsto> ''id'', ''wte'' \<mapsto> ''level''] []),
      dateFormat = ''iso''\<rparr>"

definition example_wells :: "csv_row list" where
  "example_wells =
     [[''well_id'' \<mapsto> ''A'', ''lat'' \<mapsto> [], ''long'' \<mapsto> ''-111.5''],
      [''well_id'' \<mapsto> ''B'', ''lat'' \<mapsto> ''40.1'', ''long'' \<mapsto> ''-111.7'']]"

definition example_levels :: "csv_row list" where
  "example_levels =
     [[''well_id'' \<mapsto> ''A'', ''date'' \<mapsto> ''1/5/09'', ''wte'' \<mapsto> ''10''],
      [''well_id'' \<mapsto> ''B'', ''date'' \<mapsto> ''1/6/09'', ''wte'' \<mapsto> ''11'']]"

definition well_without_latitude :: DataManager where
  "well_without_latitude =
     \<lparr>regionFile = Some (geo_file Map.empty []),
      aquiferFile = Some (geo_file aquifer_map []),
      wellsFile = Some (csv_file wells_map example_wells),
      waterLevelsFile = Some (csv_file levels_map example_levels),
      dateFormat = ''us-short''\<rparr>"

definition example_tables :: ExportTables where
  "example_tables =
     \<lparr>processedWells =
        [\<lparr>pw_well_id = ''B'', pw_lat = ''40.1'', pw_long = ''-111.7'', pw_aquifer_id = []\<rparr>],
      processedWaterLevels =
        [\<lparr>pl_well_id = ''B'', pl_date = ''2009-01-06'', pl_wte = ''11'', pl_aquifer_id = []\<rparr>]\<rparr>"

text \<open>
  An upload with two measurements of the same accepted well on different dates, and one
  measurement of the well that has no latitude.
\<close>

definition two_dates_levels :: "csv_row list" where
  "two_dates_levels =
     [[''well_id'' \<mapsto> ''A'', ''date'' \<mapsto> ''1/5/09'', ''wte'' \<mapsto> ''10''],
      [''well_id'' \<mapsto> ''B'', ''date'' \<mapsto> ''1/6/09'', ''wte'' \<mapsto> ''11''],
      [''well_id'' \<mapsto> ''B'', ''date'' \<mapsto> ''2/7/10'', ''wte'' \<mapsto> ''12'']]"

definition two_dates_upload :: DataManager where
  "two_dates_upload =
     \<lparr>regionFile = Some (geo_file Map.empty []),
      aquiferFile = Some (geo_file aquifer_map []),
      wellsFile = Some (csv_file wells_map example_wells),
      waterLevelsFile = Some (csv_file levels_map two_dates_levels),
      dateFormat = ''us-short''\<rparr>"

definition two_dates_tables :: ExportTables where
  "two_dates_tables =
     \<lparr>processedWells =
        [\<lparr>pw_well_id = ''B'', pw_lat = ''40.1'', pw_long = ''-111.7'', pw_aquifer_id = []\<rparr>],
      processedWaterLevels =
        [\<lparr>pl_well_id = ''B'', pl_date = ''2009-01-06'', pl_wte = ''11'', pl_aquifer_id = []\<rparr>,
         \<lparr>pl_well_id = ''B'', pl_date = ''2010-02-07'', pl_wte = ''12'', pl_aquifer_id = []\<rparr>]\<rparr>"

section \<open>What the loaders keep, and example files\<close>

text \<open>
  The measurement the loader stores for a row, and the rows it keeps: those with a
  non-empty well identifier and date whose water table elevation, when the row has one,
  does not parse to NaN.
\<close>

definition measurement_of :: "csv_row \<Rightarrow> Measurement" where
  "measurement_of row =
     \<lparr>m_wellId = or_empty (row ''well_id''), m_wellName = or_empty (row ''well_name''),
      m_date = or_empty (row ''date''),
      m_wte = (if truthy (row ''wte'') then parseFloat (or_empty (row ''wte'')) else Fin 0),
      m_aquiferId = or_empty (row ''aquifer_id'')\<rparr>"

definition measurement_kept :: "csv_row \<Rightarrow> bool" where
  "measurement_kept row \<longleftrightarrow>
     truthy (row ''well_id'') \<and> truthy (row ''date'') \<and>
     (truthy (row ''wte'') \<longrightarrow> \<not> isNaN (parseFloat (or_empty (row ''wte''))))"

text \<open>The test of \<^verbatim>\<open>loadWells\<close> on the well it has built.\<close>

definition well_ok :: "Well \<Rightarrow> bool" where
  "well_ok w \<longleftrightarrow>
     w_id w \<noteq> [] \<and> \<not> isNaN (w_lat w) \<and> \<not> isNaN (w_lng w) \<and> w_lat w \<noteq> Fin 0 \<and> w_lng w \<noteq> Fin 0"

text \<open>Two files as the loaders fetch them.\<close>

definition levels_text :: string where
  "levels_text = ''well_id,date,wte'' @ [CHR 0x0A] @ ''A,2020-01-01,'' @ [CHR 0x0A] @
     ''B,2020-01-02,abc'' @ [CHR 0x0A] @ '',2020-01-03,7''"

definition wells_text :: string where
  "wells_text = ''well_id,lat,long'' @ [CHR 0x0A] @ ''W1,Infinity,-111.5'' @ [CHR 0x0A] @
     ''W2,0,-111.5'' @ [CHR 0x0A] @ ''W3,north,-111.5''"

section \<open>Sample lists, intervals and secants in the words of the specification\<close>

text \<open>Abscissas in strictly increasing order, as the comparison of the program sees them.\<close>

fun increasing :: "jsnum list \<Rightarrow> bool" where
  "increasing (a # b # r) = (jlt a b \<and> increasing (b # r))"
| "increasing r = True"

text \<open>
  The interval index of the specification: the largest \<open>i\<close> with
  \<open>x[i] \<le> t < x[i + 1]\<close>.
\<close>

definition interval_candidates :: "jsnum list \<Rightarrow> jsnum \<Rightarrow> nat list" where
  "interval_candidates x t =
     filter (\<lambda>i. jle (x ! i) t \<and> jlt t (x ! (i + 1))) [0..<length x - 1]"

definition largest_interval :: "jsnum list \<Rightarrow> jsnum \<Rightarrow> nat \<Rightarrow> bool" where
  "largest_interval x t i \<longleftrightarrow> interval_candidates x t \<noteq> [] \<and> i = last (interval_candidates x t)"

text \<open>The secant slope of interval \<open>j\<close> of real samples.\<close>

definition secant :: "real list \<Rightarrow> real list \<Rightarrow> nat \<Rightarrow> real" where
  "secant xs ys j = (ys ! (j + 1) - ys ! j) / (xs ! (j + 1) - xs ! j)"

text \<open>Example samples and targets, for the concrete evaluations below.\<close>

definition three_samples :: "jsnum list" where
  "three_samples = [Fin 0, Fin 10, Fin 20]"

definition three_values :: "jsnum list" where
  "three_values = [Fin 1, Fin 2, Fin 3]"

definition outside_targets :: "jsnum list" where
  "outside_targets = [Fin (- 5), Fin 0, Fin 20, Fin 25]"

definition unit_samples :: "jsnum list" where
  "unit_samples = [Fin 0, Fin 1, Fin 2]"

definition four_samples :: "jsnum list" where
  "four_samples = [Fin 0, Fin 10, Fin 20, Fin 30]"

definition flat_values :: "jsnum list" where
  "flat_values = [Fin 3, Fin 3, Fin 3, Fin 3]"

definition sample_times :: "real list" where
  "sample_times = [0, 10, 20, 30]"

definition zigzag_values :: "real list" where
  "zigzag_values = [0, 1, 0, 1]"

section \<open>Properties of the date normalizer\<close>

lemma split_on_not_Nil: "split_on c s \<noteq> []"
  by (induction s) (auto split: list.splits)

lemma split_on_Nil_iff: "length (split_on c s) = 1 \<longleftrightarrow> c \<notin> set s"
proof (induction s)
  case Nil
  show ?case by simp
next
  case (Cons x xs)
  show ?case
  proof (cases "x = c")
    case True
    then show ?thesis using split_on_not_Nil [of c xs] by auto
  next
    case False
    then show ?thesis using Cons split_on_not_Nil [of c xs] by (auto split: list.splits)
  qed
qed

lemma padStart_two_digits: "padStart 2 CHR ''0'' p = two_digits p"
proof (cases p)
  case Nil
  then show ?thesis by (simp add: padStart_def numeral_2_eq_2)
next
  case (Cons a q)
  then show ?thesis
    by (cases q) (simp_all add: padStart_def numeral_2_eq_2)
qed

lemma year_full_year:
  "(length p = 2 \<longrightarrow> CHR ''2'' # CHR ''0'' # p = full_year p) \<and>
   (length p \<noteq> 2 \<longrightarrow> p = full_year p)"
proof (cases p)
  case Nil
  then show ?thesis by (simp add: full_year_def)
next
  case (Cons a q)
  note p = Cons
  show ?thesis
  proof (cases q)
    case Nil
    with p show ?thesis by (simp add: full_year_def)
  next
    case (Cons b r)
    with p show ?thesis by (cases r) (simp_all add: full_year_def)
  qed
qed

lemma parseDate_us:
  assumes "split_on CHR ''/'' s = [a, b, c]" and "fmt = ''us'' \<or> fmt = ''us-short''"
  shows "parseDate s fmt = full_year c @ ''-'' @ two_digits a @ ''-'' @ two_digits b"
proof -
  have "s \<noteq> []" using assms(1) by auto
  moreover have "fmt \<noteq> ''iso''" using assms(2) by auto
  ultimately show ?thesis
    using assms
    by (simp add: parseDate_def Let_def padStart_two_digits year_full_year
        del: two_digits.simps)
qed

lemma parseDate_eu:
  assumes "split_on CHR ''/'' s = [a, b, c]" and "fmt = ''eu'' \<or> fmt = ''eu-short''"
  shows "parseDate s fmt = full_year c @ ''-'' @ two_digits b @ ''-'' @ two_digits a"
proof -
  have "s \<noteq> []" using assms(1) by auto
  moreover have "fmt \<noteq> ''iso''" "fmt \<noteq> ''us''" "fmt \<noteq> ''us-short''"
    using assms(2) by auto
  ultimately show ?thesis
    using assms
    by (simp add: parseDate_def Let_def padStart_two_digits year_full_year
        del: two_digits.simps)
qed

lemma parseDate_iso: "parseDate s ''iso'' = s"
  by (simp add: parseDate_def Let_def)

lemma parseDate_not_three:
  assumes "length (split_on CHR ''/'' s) \<noteq> 3"
  shows "parseDate s fmt = s"
  using assms by (simp add: parseDate_def Let_def)


text \<open>
  C4. The Date Normalizer. An input that splits on \<open>/\<close> into exactly three parts
  \<open>a\<close>, \<open>b\<close>, \<open>c\<close> is returned as year-month-day, the formats \<open>us\<close> and
  \<open>us-short\<close> reading \<open>a\<close> as the month and \<open>b\<close> as the day, the formats \<open>eu\<close> and
  \<open>eu-short\<close> reading \<open>a\<close> as the day and \<open>b\<close> as the month; month and day are padded
  with zeros to two characters and a year of two characters is prefixed with 20. The format
  \<open>iso\<close> returns a three-part hyphen-separated input unchanged. An input that does not split
  into exactly three parts is returned unchanged, whatever the format. The two examples of
  the specification evaluate as it says.
\<close>

theorem parseDate_normalizes:
  "(split_on CHR ''/'' s = [a, b, c] \<longrightarrow>
      parseDate s ''us'' = full_year c @ ''-'' @ two_digits a @ ''-'' @ two_digits b \<and>
      parseDate s ''us-short'' = full_year c @ ''-'' @ two_digits a @ ''-'' @ two_digits b \<and>
      parseDate s ''eu'' = full_year c @ ''-'' @ two_digits b @ ''-'' @ two_digits a \<and>
      parseDate s ''eu-short'' = full_year c @ ''-'' @ two_digits b @ ''-'' @ two_digits a) \<and>
   (length (split_on CHR ''-'' s) = 3 \<longrightarrow> parseDate s ''iso'' = s) \<and>
   (length (split_on CHR ''/'' s) \<noteq> 3 \<longrightarrow>
      parseDate s ''us'' = s \<and> parseDate s ''us-short'' = s \<and>
      parseDate s ''eu'' = s \<and> parseDate s ''eu-short'' = s) \<and>
   (length (split_on CHR ''-'' s) \<noteq> 3 \<longrightarrow> parseDate s ''iso'' = s) \<and>
   parseDate ''1/5/09'' ''us-short'' = ''2009-01-05'' \<and>
   parseDate ''15/1/09'' ''eu-short'' = ''2009-01-15''"
proof -
  have ex1: "parseDate ''1/5/09'' ''us-short'' = ''2009-01-05''"
    by (simp add: parseDate_def padStart_def)
  have ex2: "parseDate ''15/1/09'' ''eu-short'' = ''2009-01-15''"
    by (simp add: parseDate_def padStart_def)
  show ?thesis
    using ex1 ex2 parseDate_us [of s a b c] parseDate_eu [of s a b c]
      parseDate_iso [of s] parseDate_not_three [of s]
    by (simp del: two_digits.simps)
qed

theorem parseDate_normalizes_witness:
  "(split_on CHR ''/'' ''1/5/09'' = [''1'', ''5'', ''09''] \<and>
    parseDate ''1/5/09'' ''us'' = ''2009-01-05'' \<and>
    parseDate ''1/5/09'' ''eu'' = ''2009-05-01'' \<and>
    length (split_on CHR ''-'' ''1/5/09'') \<noteq> 3 \<and>
    parseDate ''1/5/09'' ''iso'' = ''1/5/09'') \<and>
   (length (split_on CHR ''-'' ''2024-01-15'') = 3 \<and>
    length (split_on CHR ''/'' ''2024-01-15'') \<noteq> 3 \<and>
    parseDate ''2024-01-15'' ''iso'' = ''2024-01-15'' \<and>
    parseDate ''2024-01-15'' ''us'' = ''2024-01-15'')"
proof -
  have h1: "split_on CHR ''/'' ''1/5/09'' = [''1'', ''5'', ''09'']" by simp
  have h2: "length (split_on CHR ''-'' ''1/5/09'') \<noteq> 3" by simp
  have h3: "length (split_on CHR ''-'' ''2024-01-15'') = 3" by simp
  have h4: "length (split_on CHR ''/'' ''2024-01-15'') \<noteq> 3" by simp
  show ?thesis
    using h1 h2 h3 h4
      parseDate_normalizes [of "''1/5/09''" "''1''" "''5''" "''09''"]
      parseDate_normalizes [of "''2024-01-15''" "''1''" "''5''" "''09''"]
    by (simp add: full_year_def)
qed

section \<open>Properties of the validator\<close>

lemma wells_loop_fst:
  "fst (wells_loop aq ic ac ws (ids, errs)) =
     ids \<union> {s. s \<noteq> [] \<and> (\<exists>w\<in>set ws. w (js_key ic) = Some s)}"
  by (induction ws arbitrary: ids errs)
     (auto simp: Let_def truthy_def or_empty_def split: option.splits)

lemma measurements_loop_snd:
  "snd (measurements_loop ids c ms (v, d)) =
     d + length (filter (\<lambda>m. \<not> set_has ids (m (js_key c))) ms)"
  by (induction ms arbitrary: v d) auto

lemma measurements_loop_fst:
  "fst (measurements_loop ids c ms (v, d)) = v @ filter (\<lambda>m. set_has ids (m (js_key c))) ms"
  by (induction ms arbitrary: v d) auto

lemma checkMapping_loop_eq:
  "checkMapping_loop file ft cols =
     map (\<lambda>col. ft @ '': Missing mapping for '' @ col_label col)
       (filter (\<lambda>col. \<not> truthy (uf_mapping file (col_key col))) cols)"
  by (induction cols) auto

lemma missing_file_errors_Nil:
  "missing_file_errors st = [] \<longleftrightarrow>
     regionFile st \<noteq> None \<and> aquiferFile st \<noteq> None \<and> wellsFile st \<noteq> None \<and>
     waterLevelsFile st \<noteq> None"
  by (auto simp: missing_file_errors_def)

lemma validateData_missing_file:
  assumes "missing_file_errors st \<noteq> []"
  shows "validateData st =
     Inr \<lparr>isValid = False, errors = missing_file_errors st, warnings = [],
          droppedMeasurements = 0\<rparr>"
  using assms by (simp add: validateData_def Let_def)

lemma validateData_missing_mapping:
  assumes "missing_file_errors st = []"
    and "aquiferFile st = Some aquiferF" and "wellsFile st = Some wellsF"
    and "waterLevelsFile st = Some levelsF"
    and "checkMapping aquiferF ''aquifer'' @ checkMapping wellsF ''wells'' @
         checkMapping levelsF ''waterLevels'' \<noteq> []"
  shows "validateData st =
     Inr \<lparr>isValid = False,
          errors = checkMapping aquiferF ''aquifer'' @ checkMapping wellsF ''wells'' @
                   checkMapping levelsF ''waterLevels'',
          warnings = [], droppedMeasurements = 0\<rparr>"
  using assms by (auto simp add: validateData_def Let_def)

lemma validateData_referential:
  assumes "missing_file_errors st = []"
    and "aquiferFile st = Some aquiferF" and "wellsFile st = Some wellsF"
    and "waterLevelsFile st = Some levelsF"
    and "checkMapping aquiferF ''aquifer'' = []" and "checkMapping wellsF ''wells'' = []"
    and "checkMapping levelsF ''waterLevels'' = []"
  shows "validateData st = referential_checks aquiferF wellsF levelsF"
  using assms by (simp add: validateData_def Let_def)


lemma checkMapping_eq:
  "checkMapping file ft =
     map (\<lambda>col. ft @ '': Missing mapping for '' @ col_label col)
       (filter (\<lambda>col. col_required col \<and> \<not> truthy (uf_mapping file (col_key col)))
          (getRequiredColumns ft))"
  by (simp add: checkMapping_def checkMapping_loop_eq conj_commute)

lemma wells_loop_fst_known:
  "fst (wells_loop aq (uf_mapping wellsF ''well_id'') ac wellsData ({}, [])) =
     known_well_ids wellsF wellsData"
  unfolding wells_loop_fst known_well_ids_def by simp

lemma measurements_loop_snd0:
  "snd (measurements_loop ids c ms ([], 0)) =
     length (filter (\<lambda>m. \<not> set_has ids (m (js_key c))) ms)"
  unfolding measurements_loop_snd by simp

lemma referential_checks_result:
  assumes wd: "uf_data wellsF = CsvRows wellsData" and ld: "uf_data levelsF = CsvRows rows"
  defines "dropped \<equiv> length (filter (\<lambda>m. \<not> set_has (known_well_ids wellsF wellsData)
                         (m (js_key (uf_mapping levelsF ''well_id'')))) rows)"
  shows "\<exists>errs. referential_checks aquiferF wellsF levelsF =
     Inr \<lparr>isValid = (errs = []), errors = errs,
          warnings = (if \<not> truthy (uf_mapping wellsF ''aquifer_id'')
                      then [no_aquifer_column_warning] else []) @
                     (if dropped > 0 then [dropped_warning dropped] else []),
          droppedMeasurements = dropped\<rparr>"
proof -
  define E where "E = snd (wells_loop
      (aquiferIds_loop (uf_mapping aquiferF ''aquifer_id'') (features_of (uf_data aquiferF)) {})
      (uf_mapping wellsF ''well_id'') (uf_mapping wellsF ''aquifer_id'') wellsData ({}, []))"
  define W where "W = (if \<not> truthy (uf_mapping wellsF ''aquifer_id'')
                      then [no_aquifer_column_warning] else [])"
  have eq: "referential_checks aquiferF wellsF levelsF =
     Inr \<lparr>isValid = (length E = 0), errors = E,
          warnings = (if 0 < dropped then W @ [dropped_warning dropped] else W),
          droppedMeasurements = dropped\<rparr>"
    unfolding referential_checks_def Let_def csv_rows_def wd ld E_def W_def dropped_def
    by (simp only: FileData.case sum.case case_prod_beta wells_loop_fst_known
        measurements_loop_snd0)
  have w: "(if 0 < dropped then W @ [dropped_warning dropped] else W) =
           W @ (if dropped > 0 then [dropped_warning dropped] else [])"
    by (cases "0 < dropped") simp_all
  have v: "(length E = 0) = (E = [])" by simp
  show ?thesis
    unfolding eq w v by (rule exI [of _ E]) (simp only: W_def)
qed


lemma referential_checks_isValid_iff:
  assumes "referential_checks aquiferF wellsF levelsF = Inr result"
  shows "isValid result \<longleftrightarrow> errors result = []"
proof (cases "uf_data wellsF")
  case (GeoJSONData g)
  with assms show ?thesis
    unfolding referential_checks_def Let_def csv_rows_def by simp
next
  case wd: (CsvRows wellsData)
  show ?thesis
  proof (cases "uf_data levelsF")
    case (GeoJSONData g)
    with assms wd show ?thesis
      unfolding referential_checks_def Let_def csv_rows_def by (simp add: case_prod_beta)
  next
    case ld: (CsvRows rows)
    from referential_checks_result [OF wd ld, of aquiferF] assms
    show ?thesis by auto
  qed
qed

lemma validateData_isValid_iff:
  assumes "validateData st = Inr result"
  shows "isValid result \<longleftrightarrow> errors result = []"
proof (cases "missing_file_errors st = []")
  case False
  from validateData_missing_file [OF this] assms False show ?thesis by auto
next
  case True
  then have files: "aquiferFile st = Some (the (aquiferFile st))"
      "wellsFile st = Some (the (wellsFile st))"
      "waterLevelsFile st = Some (the (waterLevelsFile st))"
    by (auto simp: missing_file_errors_Nil)
  show ?thesis
  proof (cases "checkMapping (the (aquiferFile st)) ''aquifer'' @
           checkMapping (the (wellsFile st)) ''wells'' @
           checkMapping (the (waterLevelsFile st)) ''waterLevels'' = []")
    case False
    from validateData_missing_mapping [OF True files False] assms False show ?thesis by auto
  next
    case mapped: True
    then have r: "validateData st = referential_checks (the (aquiferFile st)) (the (wellsFile st))
        (the (waterLevelsFile st))"
      using validateData_referential [OF True files] by simp
    from assms show ?thesis
      unfolding r by (rule referential_checks_isValid_iff)
  qed
qed

lemma processWells_nonempty:
  "w \<in> set (processWells cm rows) \<Longrightarrow> pw_well_id w \<noteq> [] \<and> pw_lat w \<noteq> [] \<and> pw_long w \<noteq> []"
  by (auto simp: processWells_def Let_def)

lemma checkMapping_Nil_truthy:
  assumes "checkMapping file ft = []" and "col \<in> set (getRequiredColumns ft)" and "col_required col"
  shows "truthy (uf_mapping file (col_key col))"
  using assms by (auto simp: checkMapping_eq filter_empty_conv)

lemma truthy_SomeE: "truthy v \<Longrightarrow> \<exists>s. v = Some s \<and> s \<noteq> [] \<and> js_key v = s"
  by (cases v) (auto simp: truthy_def js_key_def)



lemma in_map_filterD: "r \<in> set (map f (filter P xs)) \<Longrightarrow> \<exists>m\<in>set xs. P m \<and> r = f m"
  by auto

lemma processWaterLevels_row:
  assumes "r \<in> set (processWaterLevels fmt lm wells rows)"
  shows "\<exists>m\<in>set rows. m (js_key (lm ''well_id'')) = Some (pl_well_id r) \<and>
           pl_well_id r \<in> pw_well_id ` set wells \<and>
           pl_date r = parseDate (or_empty (m (js_key (lm ''date'')))) fmt"
proof -
  have "\<exists>m\<in>set rows. set_has (set (map pw_well_id wells)) (m (js_key (lm ''well_id''))) \<and>
      r = \<lparr>pl_well_id = or_empty (m (js_key (lm ''well_id''))),
           pl_date = parseDate (or_empty (m (js_key (lm ''date'')))) fmt,
           pl_wte = or_empty (m (js_key (lm ''wte''))),
           pl_aquifer_id =
             (if truthy (lm ''aquifer_id'') then or_empty (m (js_key (lm ''aquifer_id''))) else [])\<rparr>"
    using assms unfolding processWaterLevels_def Let_def by (rule in_map_filterD)
  then obtain m where m: "m \<in> set rows"
    and has: "set_has (set (map pw_well_id wells)) (m (js_key (lm ''well_id'')))"
    and r: "r = \<lparr>pl_well_id = or_empty (m (js_key (lm ''well_id''))),
           pl_date = parseDate (or_empty (m (js_key (lm ''date'')))) fmt,
           pl_wte = or_empty (m (js_key (lm ''wte''))),
           pl_aquifer_id =
             (if truthy (lm ''aquifer_id'') then or_empty (m (js_key (lm ''aquifer_id''))) else [])\<rparr>"
    by blast
  have id: "pl_well_id r = or_empty (m (js_key (lm ''well_id'')))"
    and date: "pl_date r = parseDate (or_empty (m (js_key (lm ''date'')))) fmt"
    by (simp_all add: r)
  from has obtain s where s: "m (js_key (lm ''well_id'')) = Some s" "s \<in> pw_well_id ` set wells"
    by (cases "m (js_key (lm ''well_id''))") (simp_all add: set_has_def)
  with id have rs: "pl_well_id r = s" by (simp add: or_empty_def)
  show ?thesis
  proof (rule bexI [of _ m])
    show "m (js_key (lm ''well_id'')) = Some (pl_well_id r) \<and>
           pl_well_id r \<in> pw_well_id ` set wells \<and>
           pl_date r = parseDate (or_empty (m (js_key (lm ''date'')))) fmt"
      using s date unfolding rs by simp
  qed (rule m)
qed

lemma validateData_valid_stage:
  assumes v: "validateData st = Inr result" and ok: "isValid result"
  shows "missing_file_errors st = [] \<and>
         checkMapping (the (aquiferFile st)) ''aquifer'' = [] \<and>
         checkMapping (the (wellsFile st)) ''wells'' = [] \<and>
         checkMapping (the (waterLevelsFile st)) ''waterLevels'' = []"
proof -
  have a: "missing_file_errors st = []"
  proof (rule ccontr)
    assume "missing_file_errors st \<noteq> []"
    from validateData_missing_file [OF this] v ok show False by auto
  qed
  have b: "checkMapping (the (aquiferFile st)) ''aquifer'' @
           checkMapping (the (wellsFile st)) ''wells'' @
           checkMapping (the (waterLevelsFile st)) ''waterLevels'' = []"
  proof (rule ccontr)
    assume n: "checkMapping (the (aquiferFile st)) ''aquifer'' @
           checkMapping (the (wellsFile st)) ''wells'' @
           checkMapping (the (waterLevelsFile st)) ''waterLevels'' \<noteq> []"
    from a have "aquiferFile st = Some (the (aquiferFile st))"
      "wellsFile st = Some (the (wellsFile st))"
      "waterLevelsFile st = Some (the (waterLevelsFile st))"
      by (auto simp: missing_file_errors_Nil)
    from validateData_missing_mapping [OF a this n] v ok show False by auto
  qed
  from a b show ?thesis by simp
qed

lemma processData_example:
  "processData well_without_latitude = Inr (Some example_tables)"
proof -
  have v: "validateData well_without_latitude =
     Inr \<lparr>isValid = True, errors = [],
          warnings = [no_aquifer_column_warning], droppedMeasurements = 0\<rparr>"
    by (simp add: validateData_def well_without_latitude_def missing_file_errors_def
        checkMapping_def getRequiredColumns_def truthy_def geo_file_def csv_file_def
        aquifer_map_def wells_map_def levels_map_def referential_checks_def features_of_def
        csv_rows_def js_key_def or_empty_def set_has_def example_wells_def example_levels_def
        Let_def)
  show ?thesis
    unfolding processData_def v
    by (simp add: well_without_latitude_def csv_file_def csv_rows_def processWells_def
        processWaterLevels_def wells_map_def levels_map_def js_key_def or_empty_def truthy_def
        set_has_def parseDate_def padStart_def example_wells_def example_levels_def
        example_tables_def Let_def)
qed

text \<open>
  What the validator counts, for any upload that reaches the referential stage: the
  measurement rows whose well identifier is not among the non-empty identifiers of the
  wells file. One warning carries the count when it is positive, and the result is valid
  exactly when no error was pushed.
\<close>

lemma validateData_counts_by_id:
  assumes "regionFile st \<noteq> None" and "aquiferFile st = Some aquiferF"
    and "wellsFile st = Some wellsF" and "waterLevelsFile st = Some levelsF"
    and "checkMapping aquiferF ''aquifer'' = []" and "checkMapping wellsF ''wells'' = []"
    and "checkMapping levelsF ''waterLevels'' = []"
    and wd: "uf_data wellsF = CsvRows wellsData" and ld: "uf_data levelsF = CsvRows rows"
  defines "dropped \<equiv> length (filter (\<lambda>m. \<not> set_has (known_well_ids wellsF wellsData)
                         (m (js_key (uf_mapping levelsF ''well_id'')))) rows)"
  shows "\<exists>errs. validateData st =
     Inr \<lparr>isValid = (errs = []), errors = errs,
          warnings = (if \<not> truthy (uf_mapping wellsF ''aquifer_id'')
                      then [no_aquifer_column_warning] else []) @
                     (if dropped > 0 then [dropped_warning dropped] else []),
          droppedMeasurements = dropped\<rparr>"
proof -
  have "missing_file_errors st = []"
    using assms(1-4) by (simp add: missing_file_errors_Nil)
  from validateData_referential [OF this assms(2-7)]
  show ?thesis
    unfolding dropped_def using referential_checks_result [OF wd ld, of aquiferF] by simp
qed

lemma processWells_accepted:
  "set (map pw_well_id (processWells wmap wellsData)) = accepted_well_ids wmap wellsData"
proof -
  have t: "(or_empty v \<noteq> []) = truthy v" for v
    by (cases v) (simp_all add: or_empty_def truthy_def)
  show ?thesis
    unfolding processWells_def accepted_well_ids_def Let_def
    by (simp add: filter_map o_def t)
qed

text \<open>
  C7. Validation stops after the first stage that finds an error, and reports every error
  of that stage. When a file is absent the result is invalid, holds one error for each
  absent file, in the order region, aquifer, wells, water levels, and nothing else: no
  warning, no dropped measurement. When the four files are present and a required mapping
  is empty, the result is invalid and holds one error for each required column without a
  mapping, file by file, and nothing else; the rows of the files are not read.
\<close>

theorem validateData_short_circuit:
  "(regionFile st = None \<or> aquiferFile st = None \<or> wellsFile st = None \<or>
    waterLevelsFile st = None \<longrightarrow>
      validateData st =
        Inr \<lparr>isValid = False,
             errors =
               (if regionFile st = None then [''Region file is required''] else []) @
               (if aquiferFile st = None then [''Aquifer file is required''] else []) @
               (if wellsFile st = None then [''Wells file is required''] else []) @
               (if waterLevelsFile st = None then [''Water levels file is required''] else []),
             warnings = [], droppedMeasurements = 0\<rparr>) \<and>
   (regionFile st \<noteq> None \<and> aquiferFile st = Some aquiferF \<and> wellsFile st = Some wellsF \<and>
    waterLevelsFile st = Some levelsF \<and>
    (\<exists>(ft, file) \<in> {(''aquifer'', aquiferF), (''wells'', wellsF), (''waterLevels'', levelsF)}.
       \<exists>col \<in> set (getRequiredColumns ft).
         col_required col \<and> \<not> truthy (uf_mapping file (col_key col))) \<longrightarrow>
      validateData st =
        Inr \<lparr>isValid = False,
             errors =
               concat (map (\<lambda>(ft, file).
                   map (\<lambda>col. ft @ '': Missing mapping for '' @ col_label col)
                     (filter (\<lambda>col. col_required col \<and> \<not> truthy (uf_mapping file (col_key col)))
                        (getRequiredColumns ft)))
                 [(''aquifer'', aquiferF), (''wells'', wellsF), (''waterLevels'', levelsF)]),
             warnings = [], droppedMeasurements = 0\<rparr>)"
proof (intro conjI impI)
  assume "regionFile st = None \<or> aquiferFile st = None \<or> wellsFile st = None \<or>
    waterLevelsFile st = None"
  then have "missing_file_errors st \<noteq> []"
    by (simp add: missing_file_errors_Nil)
  from validateData_missing_file [OF this]
  show "validateData st =
        Inr \<lparr>isValid = False,
             errors =
               (if regionFile st = None then [''Region file is required''] else []) @
               (if aquiferFile st = None then [''Aquifer file is required''] else []) @
               (if wellsFile st = None then [''Wells file is required''] else []) @
               (if waterLevelsFile st = None then [''Water levels file is required''] else []),
             warnings = [], droppedMeasurements = 0\<rparr>"
    by (simp add: missing_file_errors_def)
next
  assume a: "regionFile st \<noteq> None \<and> aquiferFile st = Some aquiferF \<and> wellsFile st = Some wellsF \<and>
    waterLevelsFile st = Some levelsF \<and>
    (\<exists>(ft, file) \<in> {(''aquifer'', aquiferF), (''wells'', wellsF), (''waterLevels'', levelsF)}.
       \<exists>col \<in> set (getRequiredColumns ft).
         col_required col \<and> \<not> truthy (uf_mapping file (col_key col)))"
  then have present: "missing_file_errors st = []"
    by (simp add: missing_file_errors_Nil)
  have "checkMapping aquiferF ''aquifer'' @ checkMapping wellsF ''wells'' @
         checkMapping levelsF ''waterLevels'' \<noteq> []"
    using a by (auto simp: checkMapping_eq filter_empty_conv)
  with present a have "validateData st =
     Inr \<lparr>isValid = False,
          errors = checkMapping aquiferF ''aquifer'' @ checkMapping wellsF ''wells'' @
                   checkMapping levelsF ''waterLevels'',
          warnings = [], droppedMeasurements = 0\<rparr>"
    by (intro validateData_missing_mapping) simp_all
  then show "validateData st =
        Inr \<lparr>isValid = False,
             errors =
               concat (map (\<lambda>(ft, file).
                   map (\<lambda>col. ft @ '': Missing mapping for '' @ col_label col)
                     (filter (\<lambda>col. col_required col \<and> \<not> truthy (uf_mapping file (col_key col)))
                        (getRequiredColumns ft)))
                 [(''aquifer'', aquiferF), (''wells'', wellsF), (''waterLevels'', levelsF)]),
             warnings = [], droppedMeasurements = 0\<rparr>"
    by (simp add: checkMapping_eq)
qed

theorem validateData_short_circuit_witness:
  "validateData two_files_missing =
     Inr \<lparr>isValid = False,
          errors = [''Region file is required'', ''Wells file is required''],
          warnings = [], droppedMeasurements = 0\<rparr> \<and>
   validateData three_mappings_missing =
     Inr \<lparr>isValid = False,
          errors = [''wells: Missing mapping for Latitude'',
                    ''wells: Missing mapping for Longitude'',
                    ''waterLevels: Missing mapping for Date''],
          warnings = [], droppedMeasurements = 0\<rparr>"
proof -
  have h: "\<exists>(ft, file) \<in> {(''aquifer'', geo_file aquifer_map []),
              (''wells'', geo_file [''well_id'' \<mapsto> ''id'', ''lat'' \<mapsto> []] []),
              (''waterLevels'', csv_file [''well_id'' \<mapsto> ''id'', ''wte'' \<mapsto> ''level''] [])}.
       \<exists>col \<in> set (getRequiredColumns ft).
         col_required col \<and> \<not> truthy (uf_mapping file (col_key col))"
    by (simp add: getRequiredColumns_def truthy_def geo_file_def csv_file_def)
  show ?thesis
    using h validateData_short_circuit [of two_files_missing]
      validateData_short_circuit [of three_mappings_missing "geo_file aquifer_map []"
        "geo_file [''well_id'' \<mapsto> ''id'', ''lat'' \<mapsto> []] []"
        "csv_file [''well_id'' \<mapsto> ''id'', ''wte'' \<mapsto> ''level''] []"]
    by (simp add: two_files_missing_def three_mappings_missing_def getRequiredColumns_def
        truthy_def geo_file_def csv_file_def aquifer_map_def)
qed

text \<open>
  C1. The count of dropped measurements against the accepted wells. With the four files
  present and every required mapping set, the wells file holds well \<open>A\<close> with an empty
  latitude and well \<open>B\<close> with both coordinates, and each well has one measurement. Well
  \<open>A\<close> is not an accepted well, so one measurement row refers to no accepted well; the
  validator reports no dropped measurement and no warning about one, while the export keeps
  only well \<open>B\<close> and its measurement.
\<close>

theorem validateData_dropped_count_example:
  "validateData well_without_latitude =
     Inr \<lparr>isValid = True, errors = [],
          warnings = [no_aquifer_column_warning], droppedMeasurements = 0\<rparr> \<and>
   accepted_well_ids wells_map example_wells = {''B''} \<and>
   length (filter (\<lambda>m. \<not> set_has (accepted_well_ids wells_map example_wells)
                        (m (js_key (levels_map ''well_id'')))) example_levels) = 1 \<and>
   processData well_without_latitude = Inr (Some example_tables)"
proof -
  have v: "validateData well_without_latitude =
     Inr \<lparr>isValid = True, errors = [],
          warnings = [no_aquifer_column_warning], droppedMeasurements = 0\<rparr>"
    by (simp add: validateData_def well_without_latitude_def missing_file_errors_def
        checkMapping_def getRequiredColumns_def truthy_def geo_file_def csv_file_def
        aquifer_map_def wells_map_def levels_map_def referential_checks_def features_of_def
        csv_rows_def js_key_def or_empty_def set_has_def example_wells_def example_levels_def
        Let_def)
  have a: "accepted_well_ids wells_map example_wells = {''B''}"
    by (simp add: accepted_well_ids_def wells_map_def example_wells_def js_key_def truthy_def
        or_empty_def)
  have n: "length (filter (\<lambda>m. \<not> set_has (accepted_well_ids wells_map example_wells)
                        (m (js_key (levels_map ''well_id'')))) example_levels) = 1"
    unfolding a by (simp add: levels_map_def example_levels_def js_key_def set_has_def)
  from v a n processData_example show ?thesis by simp
qed

text \<open>
  The wells table holds one record for each row of the wells file that has a non-empty
  identifier, latitude and longitude, in the order of the file.
\<close>

lemma or_empty_truthy: "(or_empty v \<noteq> []) = truthy v"
  by (cases v) (simp_all add: or_empty_def truthy_def)

lemma processWells_rows:
  "processWells wmap wellsData =
     map (\<lambda>w. \<lparr>pw_well_id = or_empty (w (js_key (wmap ''well_id''))),
                pw_lat = or_empty (w (js_key (wmap ''lat''))),
                pw_long = or_empty (w (js_key (wmap ''long''))),
                pw_aquifer_id =
                  (if truthy (wmap ''aquifer_id'') then or_empty (w (js_key (wmap ''aquifer_id'')))
                   else [])\<rparr>)
       (filter (\<lambda>w. truthy (w (js_key (wmap ''well_id''))) \<and> truthy (w (js_key (wmap ''lat''))) \<and>
                    truthy (w (js_key (wmap ''long''))))
          wellsData)"
  unfolding processWells_def Let_def by (simp add: filter_map o_def or_empty_truthy)

lemma processData_two_dates:
  "processData two_dates_upload = Inr (Some two_dates_tables)"
proof -
  have v: "validateData two_dates_upload =
     Inr \<lparr>isValid = True, errors = [],
          warnings = [no_aquifer_column_warning], droppedMeasurements = 0\<rparr>"
    by (simp add: validateData_def two_dates_upload_def missing_file_errors_def
        checkMapping_def getRequiredColumns_def truthy_def geo_file_def csv_file_def
        aquifer_map_def wells_map_def levels_map_def referential_checks_def features_of_def
        csv_rows_def js_key_def or_empty_def set_has_def example_wells_def two_dates_levels_def
        Let_def)
  show ?thesis
    unfolding processData_def v
    by (simp add: two_dates_upload_def csv_file_def csv_rows_def processWells_def
        processWaterLevels_def wells_map_def levels_map_def js_key_def or_empty_def truthy_def
        set_has_def parseDate_def padStart_def example_wells_def two_dates_levels_def
        two_dates_tables_def Let_def)
qed

text \<open>
  C8. The tables of the export. The wells table is made from the rows of the wells file
  whose identifier, latitude and longitude are all non-empty, one record for each, in
  order. The measurements table is made from the rows of the water levels file whose
  value in the column mapped to \<open>well_id\<close> is the identifier of a well of the wells
  table, one record for each, in order: the identifier of the record is that value, and
  its date is \<open>parseDate\<close>, under the chosen date format, of the value of the same row
  in the column mapped to \<open>date\<close> (the empty string when the row has none). So every
  well of the wells table has a non-empty identifier, latitude and longitude, and every
  record of the measurements table carries the identifier of a well of the wells table.
\<close>

theorem processData_referential:
  assumes "processData st = Inr (Some out)"
  shows "\<exists>wellsF wellsData wellIdCol latCol longCol levelsF rows wlWellIdCol dateCol wteCol.
     wellsFile st = Some wellsF \<and> uf_data wellsF = CsvRows wellsData \<and>
     uf_mapping wellsF ''well_id'' = Some wellIdCol \<and>
     uf_mapping wellsF ''lat'' = Some latCol \<and>
     uf_mapping wellsF ''long'' = Some longCol \<and>
     waterLevelsFile st = Some levelsF \<and> uf_data levelsF = CsvRows rows \<and>
     uf_mapping levelsF ''well_id'' = Some wlWellIdCol \<and>
     uf_mapping levelsF ''date'' = Some dateCol \<and>
     uf_mapping levelsF ''wte'' = Some wteCol \<and>
     processedWells out =
       map (\<lambda>w. \<lparr>pw_well_id = or_empty (w wellIdCol), pw_lat = or_empty (w latCol),
                  pw_long = or_empty (w longCol),
                  pw_aquifer_id =
                    (if truthy (uf_mapping wellsF ''aquifer_id'')
                     then or_empty (w (js_key (uf_mapping wellsF ''aquifer_id''))) else [])\<rparr>)
         (filter (\<lambda>w. truthy (w wellIdCol) \<and> truthy (w latCol) \<and> truthy (w longCol)) wellsData) \<and>
     processedWaterLevels out =
       map (\<lambda>m. \<lparr>pl_well_id = or_empty (m wlWellIdCol),
                  pl_date = parseDate (or_empty (m dateCol)) (dateFormat st),
                  pl_wte = or_empty (m wteCol),
                  pl_aquifer_id =
                    (if truthy (uf_mapping levelsF ''aquifer_id'')
                     then or_empty (m (js_key (uf_mapping levelsF ''aquifer_id''))) else [])\<rparr>)
         (filter (\<lambda>m. set_has (set (map pw_well_id (processedWells out))) (m wlWellIdCol)) rows) \<and>
     (\<forall>w\<in>set (processedWells out). pw_well_id w \<noteq> [] \<and> pw_lat w \<noteq> [] \<and> pw_long w \<noteq> []) \<and>
     (\<forall>r\<in>set (processedWaterLevels out).
        pl_well_id r \<in> set (map pw_well_id (processedWells out)))"
proof -
  from assms obtain result where v: "validateData st = Inr result" and ok: "isValid result"
    by (auto simp: processData_def split: sum.splits if_splits)
  from validateData_valid_stage [OF v ok]
  have present: "missing_file_errors st = []"
    and cw: "checkMapping (the (wellsFile st)) ''wells'' = []"
    and cm: "checkMapping (the (waterLevelsFile st)) ''waterLevels'' = []"
    by simp_all
  from present obtain wellsF levelsF
    where wF: "wellsFile st = Some wellsF" and lF: "waterLevelsFile st = Some levelsF"
    by (auto simp: missing_file_errors_Nil)
  from assms v ok wF lF obtain wellsData rows
    where wd: "uf_data wellsF = CsvRows wellsData" and ld: "uf_data levelsF = CsvRows rows"
      and out: "out = \<lparr>processedWells = processWells (uf_mapping wellsF) wellsData,
                 processedWaterLevels =
                   processWaterLevels (dateFormat st) (uf_mapping levelsF)
                     (processWells (uf_mapping wellsF) wellsData) rows\<rparr>"
    by (auto simp: processData_def Let_def csv_rows_def split: sum.splits FileData.splits)
  have col: "\<exists>c. uf_mapping levelsF k = Some c \<and> js_key (uf_mapping levelsF k) = c"
    if "k \<in> {''well_id'', ''date'', ''wte''}" for k
  proof -
    from that obtain l where "\<lparr>col_key = k, col_label = l, col_required = True\<rparr>
        \<in> set (getRequiredColumns ''waterLevels'')"
      by (auto simp: getRequiredColumns_def)
    from checkMapping_Nil_truthy [OF _ this] cm lF have "truthy (uf_mapping levelsF k)"
      by simp
    then show ?thesis using truthy_SomeE by blast
  qed
  have wcol: "\<exists>c. uf_mapping wellsF k = Some c \<and> js_key (uf_mapping wellsF k) = c"
    if "k \<in> {''well_id'', ''lat'', ''long''}" for k
  proof -
    from that obtain l where "\<lparr>col_key = k, col_label = l, col_required = True\<rparr>
        \<in> set (getRequiredColumns ''wells'')"
      by (auto simp: getRequiredColumns_def)
    from checkMapping_Nil_truthy [OF _ this] cw wF have "truthy (uf_mapping wellsF k)"
      by simp
    then show ?thesis using truthy_SomeE by blast
  qed
  from wcol [of "''well_id''"] obtain wellIdCol
    where c1: "uf_mapping wellsF ''well_id'' = Some wellIdCol"
      "js_key (uf_mapping wellsF ''well_id'') = wellIdCol" by auto
  from wcol [of "''lat''"] obtain latCol
    where c2: "uf_mapping wellsF ''lat'' = Some latCol"
      "js_key (uf_mapping wellsF ''lat'') = latCol" by auto
  from wcol [of "''long''"] obtain longCol
    where c3: "uf_mapping wellsF ''long'' = Some longCol"
      "js_key (uf_mapping wellsF ''long'') = longCol" by auto
  from col [of "''well_id''"] obtain wlWellIdCol
    where c4: "uf_mapping levelsF ''well_id'' = Some wlWellIdCol"
      "js_key (uf_mapping levelsF ''well_id'') = wlWellIdCol" by auto
  from col [of "''date''"] obtain dateCol
    where c5: "uf_mapping levelsF ''date'' = Some dateCol"
      "js_key (uf_mapping levelsF ''date'') = dateCol" by auto
  from col [of "''wte''"] obtain wteCol
    where c6: "uf_mapping levelsF ''wte'' = Some wteCol"
      "js_key (uf_mapping levelsF ''wte'') = wteCol" by auto
  have pw: "processedWells out = processWells (uf_mapping wellsF) wellsData"
    and pl: "processedWaterLevels out =
       processWaterLevels (dateFormat st) (uf_mapping levelsF) (processedWells out) rows"
    by (simp_all add: out)
  have wells: "processedWells out =
       map (\<lambda>w. \<lparr>pw_well_id = or_empty (w wellIdCol), pw_lat = or_empty (w latCol),
                  pw_long = or_empty (w longCol),
                  pw_aquifer_id =
                    (if truthy (uf_mapping wellsF ''aquifer_id'')
                     then or_empty (w (js_key (uf_mapping wellsF ''aquifer_id''))) else [])\<rparr>)
         (filter (\<lambda>w. truthy (w wellIdCol) \<and> truthy (w latCol) \<and> truthy (w longCol)) wellsData)"
    unfolding pw processWells_rows c1(2) c2(2) c3(2) ..
  have levels: "processedWaterLevels out =
       map (\<lambda>m. \<lparr>pl_well_id = or_empty (m wlWellIdCol),
                  pl_date = parseDate (or_empty (m dateCol)) (dateFormat st),
                  pl_wte = or_empty (m wteCol),
                  pl_aquifer_id =
                    (if truthy (uf_mapping levelsF ''aquifer_id'')
                     then or_empty (m (js_key (uf_mapping levelsF ''aquifer_id''))) else [])\<rparr>)
         (filter (\<lambda>m. set_has (set (map pw_well_id (processedWells out))) (m wlWellIdCol)) rows)"
    unfolding pl processWaterLevels_def Let_def c4(2) c5(2) c6(2) ..
  have nonempty: "\<forall>w\<in>set (processedWells out).
      pw_well_id w \<noteq> [] \<and> pw_lat w \<noteq> [] \<and> pw_long w \<noteq> []"
    using processWells_nonempty by (simp add: pw)
  have refs: "\<forall>r\<in>set (processedWaterLevels out).
      pl_well_id r \<in> set (map pw_well_id (processedWells out))"
  proof
    fix r assume "r \<in> set (processedWaterLevels out)"
    then have "r \<in> set (processWaterLevels (dateFormat st) (uf_mapping levelsF)
        (processedWells out) rows)"
      by (simp only: pl [symmetric])
    from processWaterLevels_row [OF this]
    show "pl_well_id r \<in> set (map pw_well_id (processedWells out))"
      by auto
  qed
  from wF wd c1(1) c2(1) c3(1) lF ld c4(1) c5(1) c6(1) wells levels nonempty refs
  show ?thesis by (intro exI conjI)
qed

theorem processData_referential_witness:
  "processData two_dates_upload = Inr (Some two_dates_tables) \<and>
   processedWaterLevels two_dates_tables =
     map (\<lambda>m. \<lparr>pl_well_id = or_empty (m ''well_id''),
                pl_date = parseDate (or_empty (m ''date'')) ''us-short'',
                pl_wte = or_empty (m ''wte''), pl_aquifer_id = []\<rparr>)
       (filter (\<lambda>m. set_has {''B''} (m ''well_id'')) two_dates_levels) \<and>
   map pl_date (processedWaterLevels two_dates_tables) = [''2009-01-06'', ''2010-02-07''] \<and>
   set (map pl_well_id (processedWaterLevels two_dates_tables)) \<subseteq>
     set (map pw_well_id (processedWells two_dates_tables))"
proof -
  note h = processData_two_dates
  from processData_referential [OF h]
  obtain levelsF rows wlWellIdCol dateCol wteCol
    where lF: "waterLevelsFile two_dates_upload = Some levelsF"
      and ld: "uf_data levelsF = CsvRows rows"
      and c: "uf_mapping levelsF ''well_id'' = Some wlWellIdCol"
        "uf_mapping levelsF ''date'' = Some dateCol"
        "uf_mapping levelsF ''wte'' = Some wteCol"
      and levels: "processedWaterLevels two_dates_tables =
       map (\<lambda>m. \<lparr>pl_well_id = or_empty (m wlWellIdCol),
                  pl_date = parseDate (or_empty (m dateCol)) (dateFormat two_dates_upload),
                  pl_wte = or_empty (m wteCol),
                  pl_aquifer_id =
                    (if truthy (uf_mapping levelsF ''aquifer_id'')
                     then or_empty (m (js_key (uf_mapping levelsF ''aquifer_id''))) else [])\<rparr>)
         (filter (\<lambda>m. set_has (set (map pw_well_id (processedWells two_dates_tables)))
                    (m wlWellIdCol)) rows)"
      and refs: "\<forall>r\<in>set (processedWaterLevels two_dates_tables).
        pl_well_id r \<in> set (map pw_well_id (processedWells two_dates_tables))"
    by (elim exE conjE)
  from lF have f: "levelsF = csv_file levels_map two_dates_levels"
    by (simp add: two_dates_upload_def)
  from ld have r: "rows = two_dates_levels"
    by (simp add: f csv_file_def)
  from c have k: "wlWellIdCol = ''well_id''" "dateCol = ''date''" "wteCol = ''wte''"
    by (simp_all add: f csv_file_def levels_map_def)
  have a: "\<not> truthy (uf_mapping levelsF ''aquifer_id'')"
    by (simp add: f csv_file_def levels_map_def truthy_def)
  have w: "set (map pw_well_id (processedWells two_dates_tables)) = {''B''}"
    by (simp add: two_dates_tables_def)
  have d: "dateFormat two_dates_upload = ''us-short''"
    by (simp add: two_dates_upload_def)
  have t: "processedWaterLevels two_dates_tables =
     map (\<lambda>m. \<lparr>pl_well_id = or_empty (m ''well_id''),
                pl_date = parseDate (or_empty (m ''date'')) ''us-short'',
                pl_wte = or_empty (m ''wte''), pl_aquifer_id = []\<rparr>)
       (filter (\<lambda>m. set_has {''B''} (m ''well_id'')) two_dates_levels)"
    using levels unfolding r k w d by (simp only: a if_False)
  have dates: "map pl_date (processedWaterLevels two_dates_tables) =
      [''2009-01-06'', ''2010-02-07'']"
    by (simp add: two_dates_tables_def)
  from refs have sub: "set (map pl_well_id (processedWaterLevels two_dates_tables)) \<subseteq>
     set (map pw_well_id (processedWells two_dates_tables))"
    by auto
  from h t dates sub show ?thesis by (intro conjI)
qed

section \<open>Properties of rounding\<close>

lemma ilog2_bounds: "0 < n \<Longrightarrow> 2 ^ ilog2 n \<le> n \<and> n < 2 ^ Suc (ilog2 n)"
proof (induction n rule: ilog2.induct)
  case (1 n)
  show ?case
  proof (cases "n < 2")
    case True
    with "1.prems" have "n = 1" by simp
    then show ?thesis by (simp add: ilog2.simps)
  next
    case False
    then have pos: "0 < n div 2" by simp
    from "1.IH" [OF False pos]
    have lo: "2 ^ ilog2 (n div 2) \<le> n div 2" and hi: "n div 2 < 2 ^ Suc (ilog2 (n div 2))"
      by simp_all
    have eq: "ilog2 n = Suc (ilog2 (n div 2))"
      using False by (subst ilog2.simps) simp
    have "2 * 2 ^ ilog2 (n div 2) \<le> 2 * (n div 2)" using lo by simp
    also have "\<dots> \<le> n" by simp
    finally have a: "2 ^ ilog2 n \<le> n" by (simp add: eq)
    have "Suc (n div 2) \<le> 2 ^ Suc (ilog2 (n div 2))" using hi by simp
    then have "2 * Suc (n div 2) \<le> 2 * 2 ^ Suc (ilog2 (n div 2))" by simp
    moreover have "n < 2 * Suc (n div 2)" by simp
    ultimately have b: "n < 2 ^ Suc (ilog2 n)" by (simp add: eq)
    from a b show ?thesis by simp
  qed
qed

lemma two_powi_mono: "e \<le> e' \<Longrightarrow> (2::real) powi e \<le> 2 powi e'"
  by (rule power_int_increasing) simp_all

lemma two_powi_Suc: "(2::real) powi (e + 1) = 2 * 2 powi e"
  by (simp add: power_int_add)

lemma expo_bounds:
  assumes "0 < a"
  shows "2 powi expo a \<le> a \<and> a < 2 powi (expo a + 1)"
proof (cases "1 \<le> a")
  case True
  define n where "n = nat \<lfloor>a\<rfloor>"
  have n: "0 < n" "real n \<le> a" "a < real n + 1"
    using True unfolding n_def by linarith+
  have e: "expo a = int (ilog2 n)" using True by (simp add: expo_def n_def)
  from ilog2_bounds [OF n(1)] have lo: "2 ^ ilog2 n \<le> n" and hi: "n < 2 ^ Suc (ilog2 n)"
    by simp_all
  have "(2::real) ^ ilog2 n \<le> real n" using lo
    by (metis of_nat_le_iff of_nat_numeral of_nat_power)
  then have "(2::real) ^ ilog2 n \<le> a" using n(2) by linarith
  then have a: "2 powi expo a \<le> a" by (simp add: e)
  have "Suc n \<le> 2 ^ Suc (ilog2 n)" using hi by simp
  then have "real (Suc n) \<le> (2::real) ^ Suc (ilog2 n)"
    by (metis of_nat_le_iff of_nat_numeral of_nat_power)
  then have "a < (2::real) ^ Suc (ilog2 n)" using n(3) by simp
  then have b: "a < 2 powi (expo a + 1)"
    unfolding e two_powi_Suc by simp
  from a b show ?thesis by simp
next
  case False
  then have a1: "a < 1" by simp
  define c where "c = nat (\<lceil>1 / a\<rceil> - 1)"
  have inv: "1 < 1 / a" using assms a1 by simp
  then have "2 \<le> \<lceil>1 / a\<rceil>" by linarith
  then have c: "0 < c" "real c < 1 / a" "1 / a \<le> real c + 1"
    unfolding c_def by linarith+
  define k where "k = ilog2 c"
  have e: "expo a = - int k - 1" using False by (simp add: expo_def c_def k_def)
  from ilog2_bounds [OF c(1)] have lo: "2 ^ k \<le> c" and hi: "c < 2 ^ Suc k"
    by (simp_all add: k_def)
  have "(2::real) ^ k \<le> real c" using lo
    by (metis of_nat_le_iff of_nat_numeral of_nat_power)
  then have l1: "(2::real) ^ k < 1 / a" using c(2) by linarith
  have "Suc c \<le> 2 ^ Suc k" using hi by simp
  then have "real (Suc c) \<le> (2::real) ^ Suc k"
    by (metis of_nat_le_iff of_nat_numeral of_nat_power)
  then have l2: "1 / a \<le> (2::real) ^ Suc k" using c(3) by simp
  have p1: "(2::real) powi (- int k - 1) = 1 / 2 ^ Suc k"
    by (simp add: power_int_diff power_int_minus_divide)
  have p2: "(2::real) powi (- int k - 1 + 1) = 1 / 2 ^ k"
    by (simp add: power_int_minus_divide)
  have x: "1 / 2 ^ Suc k \<le> a"
    using l2 assms by (simp add: field_simps)
  have y: "a < 1 / 2 ^ k"
    using l1 assms by (simp add: field_simps)
  show ?thesis unfolding e p1 p2 using x y by simp
qed

lemma expo_unique:
  assumes "0 < a" and lo: "2 powi e \<le> a" and hi: "a < 2 powi (e + 1)"
  shows "expo a = e"
proof (rule ccontr)
  assume ne: "expo a \<noteq> e"
  from expo_bounds [OF assms(1)]
  have lo': "2 powi expo a \<le> a" and hi': "a < 2 powi (expo a + 1)" by simp_all
  show False
  proof (cases "expo a < e")
    case True
    then have "expo a + 1 \<le> e" by simp
    from two_powi_mono [OF this] lo hi' show False by simp
  next
    case False
    with ne have "e + 1 \<le> expo a" by simp
    from two_powi_mono [OF this] lo' hi show False by simp
  qed
qed

lemma round_even_near:
  assumes "\<bar>x - of_int k\<bar> < 1 / 2"
  shows "round_even x = k"
proof (cases "of_int k \<le> x")
  case True
  with assms have "\<lfloor>x\<rfloor> = k" by linarith
  then show ?thesis using assms True by (simp add: round_even_def Let_def)
next
  case False
  with assms have f: "\<lfloor>x\<rfloor> = k - 1" by linarith
  have "1 / 2 < x - of_int (k - 1)" using assms False by simp
  then show ?thesis using f by (simp add: round_even_def Let_def)
qed

lemma round_even_of_int [simp]: "round_even (of_int k) = k"
  by (rule round_even_near) simp

lemma round_even_tie:
  assumes "x = of_int j + 1 / 2"
  shows "round_even x = (if even j then j else j + 1)"
proof -
  have "\<lfloor>x\<rfloor> = j" unfolding assms by linarith
  then show ?thesis by (simp add: round_even_def Let_def assms)
qed

lemma round_even_mono_bound:
  assumes "x < of_int m"
  shows "round_even x \<le> m"
proof -
  have f: "\<lfloor>x\<rfloor> < m" using assms by linarith
  then have "\<lfloor>x\<rfloor> + 1 \<le> m" by simp
  moreover have "round_even x \<le> \<lfloor>x\<rfloor> + 1" by (simp add: round_even_def Let_def)
  ultimately show ?thesis by simp
qed

lemma binary64_minus: "binary64 (- x) = jneg (binary64 x)"
proof (cases "x = 0")
  case True
  then show ?thesis by (simp add: binary64_def)
next
  case False
  then show ?thesis
    by (cases "x < 0") (auto simp: binary64_def Let_def signed_inf_def)
qed

lemma binary64_pos:
  assumes "0 < a" and "- 1022 \<le> e" and "e \<le> 1022"
    and lo: "2 powi e \<le> a" and hi: "a < 2 powi (e + 1)"
    and k: "round_even (a / 2 powi (e - 52)) = k"
  shows "binary64 a = Fin (of_int k * 2 powi (e - 52))"
proof -
  have ex: "expo a = e" using assms(1) lo hi by (rule expo_unique)
  have mx: "max (expo a) (- 1022) = e" using assms(2) by (simp add: ex)
  define q :: real where "q = 2 powi (e - 52)"
  have q: "0 < q" by (simp add: q_def)
  have "2 powi (e + 1) = (2::real) ^ 53 * q"
    unfolding q_def by (simp add: power_int_diff power_int_add)
  with hi have "a < 2 ^ 53 * q" by simp
  then have "a / q < of_int (2 ^ 53)" using q by (simp add: field_simps)
  from round_even_mono_bound [OF this] have "k \<le> 2 ^ 53" using k by (simp add: q_def)
  then have "real_of_int k \<le> 2 ^ 53"
    by (metis of_int_le_iff of_int_numeral of_int_power)
  then have "of_int k * q \<le> 2 ^ 53 * q" using q by simp
  also have "\<dots> = 2 powi (e + 1)"
    unfolding q_def by (simp add: power_int_diff power_int_add)
  also have "\<dots> \<le> 2 powi 1023" using assms(3) by (intro two_powi_mono) simp
  also have "\<dots> < (2::real) powi 1024" by (intro power_int_strict_increasing) simp_all
  finally have small: "\<not> 2 powi 1024 \<le> of_int k * q" by simp
  have nz: "a \<noteq> 0" "\<not> a < 0" using assms(1) by simp_all
  have k': "round_even (a / q) = k" using k by (simp add: q_def)
  show ?thesis
    unfolding binary64_def Let_def abs_of_pos [OF assms(1)] mx q_def [symmetric] k'
    using nz small by (simp only: if_False)
qed

lemma binary64_round:
  assumes n: "n \<le> 1074"
    and lo: "2 ^ 52 \<le> \<bar>x\<bar> * 2 ^ n" and hi: "\<bar>x\<bar> * 2 ^ n < 2 ^ 53"
    and k: "\<bar>\<bar>x\<bar> * 2 ^ n - of_int k\<bar> < 1 / 2"
  shows "binary64 x = Fin (sgn x * of_int k / 2 ^ n)"
proof -
  define e where "e = 52 - int n"
  have p: "(2::real) powi (e - 52) = 1 / 2 ^ n"
    by (simp add: e_def power_int_minus_divide)
  have pe: "(2::real) powi e = 2 ^ 52 / 2 ^ n"
    by (simp add: e_def power_int_diff)
  have pe1: "(2::real) powi (e + 1) = 2 ^ 53 / 2 ^ n"
    unfolding two_powi_Suc pe by simp
  have pos: "0 < \<bar>x\<bar>" using lo by (cases "x = 0") simp_all
  have r: "round_even (\<bar>x\<bar> / 2 powi (e - 52)) = k"
    unfolding p using k by (simp add: round_even_near)
  have a: "binary64 \<bar>x\<bar> = Fin (of_int k * 2 powi (e - 52))"
  proof (rule binary64_pos [OF pos _ _ _ _ r])
    show "- 1022 \<le> e" using n by (simp add: e_def)
    show "e \<le> 1022" by (simp add: e_def)
    show "2 powi e \<le> \<bar>x\<bar>" unfolding pe using lo by (simp add: field_simps)
    show "\<bar>x\<bar> < 2 powi (e + 1)" unfolding pe1 using hi by (simp add: field_simps)
  qed
  show ?thesis
  proof (cases "0 < x")
    case True
    with a show ?thesis by (simp add: p)
  next
    case False
    with pos have neg: "x < 0" by simp
    then have "binary64 x = jneg (binary64 \<bar>x\<bar>)"
      using binary64_minus [of "\<bar>x\<bar>"] by simp
    with a neg show ?thesis by (simp add: p)
  qed
qed

lemma binary64_dyadic:
  assumes m: "\<bar>m\<bar> < 2 ^ 53" and n: "n \<le> 1074"
  shows "binary64 (of_int m / 2 ^ n) = Fin (of_int m / 2 ^ n)"
proof (cases "m = 0")
  case True
  then show ?thesis by (simp add: binary64_def)
next
  case False
  define a :: real where "a = of_int \<bar>m\<bar> / 2 ^ n"
  have a: "0 < a" using False by (simp add: a_def)
  define E where "E = max (expo a) (- 1022)"
  have "real_of_int \<bar>m\<bar> < 2 ^ 53" using m
    by (metis of_int_less_iff of_int_numeral of_int_power)
  then have alt: "a < 2 powi (53 - int n)"
    by (simp add: a_def power_int_diff field_simps)
  have "expo a \<le> 52 - int n"
  proof (rule ccontr)
    assume "\<not> expo a \<le> 52 - int n"
    then have "53 - int n \<le> expo a" by simp
    from two_powi_mono [OF this] expo_bounds [OF a] alt show False by simp
  qed
  then have E: "E \<le> 52 - int n" "- 1022 \<le> E" using n by (simp_all add: E_def)
  define d where "d = nat (52 - int n - E)"
  have q: "(2::real) powi (E - 52) = 1 / (2 ^ n * 2 ^ d)"
  proof -
    have "E - 52 = - (int n + int d)" using E by (simp add: d_def)
    then show ?thesis by (simp add: power_int_minus_divide power_add flip: of_nat_add)
  qed
  have quot: "a / 2 powi (E - 52) = of_int (\<bar>m\<bar> * 2 ^ d)"
    unfolding q a_def by simp
  have r: "of_int (round_even (a / 2 powi (E - 52))) * 2 powi (E - 52) = a"
    unfolding quot round_even_of_int unfolding q a_def by simp
  have "a < 2 powi (53 - int n)" by (rule alt)
  also have "\<dots> \<le> 2 powi 1024" by (intro two_powi_mono) simp
  finally have small: "\<not> 2 powi 1024 \<le> a" by simp
  have abs: "\<bar>real_of_int m / 2 ^ n\<bar> = a" by (simp add: a_def)
  have nz: "real_of_int m / 2 ^ n \<noteq> 0" using False by simp
  have "binary64 (of_int m / 2 ^ n) =
      Fin (if real_of_int m / 2 ^ n < 0 then - a else a)"
    unfolding binary64_def Let_def abs E_def [symmetric] r
    using nz small by simp
  also have "(if real_of_int m / 2 ^ n < 0 then - a else a) = of_int m / 2 ^ n"
    by (simp add: a_def abs_if zero_less_divide_iff divide_less_0_iff)
  finally show ?thesis .
qed

lemma binary64_of_int: "\<bar>m\<bar> < 2 ^ 53 \<Longrightarrow> binary64 (of_int m) = Fin (of_int m)"
  using binary64_dyadic [of m 0] by simp

lemma binary64_numeral [simp]:
  "numeral w < (2::int) ^ 53 \<Longrightarrow> binary64 (numeral w) = Fin (numeral w)"
  using binary64_of_int [of "numeral w"] by simp

lemma binary64_neg_numeral [simp]:
  "numeral w < (2::int) ^ 53 \<Longrightarrow> binary64 (- numeral w) = Fin (- numeral w)"
  using binary64_of_int [of "- numeral w"] by simp

lemma binary64_0 [simp]: "binary64 0 = Fin 0"
  by (simp add: binary64_def)

lemma binary64_1 [simp]: "binary64 1 = Fin 1"
  using binary64_of_int [of 1] by simp


section \<open>Properties of the data loader\<close>

lemma parseFloat_zero: "parseFloat ''0'' = Fin 0"
  by (simp add: parseFloat_def is_space_def is_digit_def digits_val_def exponent_part_def)

lemma parseFloat_Infinity: "parseFloat ''Infinity'' = PInf"
  by (simp add: parseFloat_def is_space_def signed_inf_def)

lemma or_default_Nil: "or_default v [] = or_empty v"
  by (cases v) (simp_all add: or_default_def or_empty_def truthy_def)

lemma or_empty_Nil_iff: "or_empty v \<noteq> [] \<longleftrightarrow> truthy v"
  by (cases v) (simp_all add: or_empty_def truthy_def)

lemma wte_value:
  "parseFloat (or_default (row ''wte'') ''0'') =
     (if truthy (row ''wte'') then parseFloat (or_empty (row ''wte'')) else Fin 0)"
  by (simp add: or_default_def parseFloat_zero)

lemma loadMeasurements_loop_step:
  "loadMeasurements_loop (row # rows) acc =
     loadMeasurements_loop rows (if measurement_kept row then acc @ [measurement_of row] else acc)"
proof (cases "truthy (row ''wte'')")
  case True
  then show ?thesis
    unfolding loadMeasurements_loop.simps Let_def or_default_Nil wte_value or_empty_Nil_iff
    by (simp add: measurement_of_def measurement_kept_def)
next
  case False
  then show ?thesis
    unfolding loadMeasurements_loop.simps Let_def or_default_Nil wte_value or_empty_Nil_iff
    by (simp add: measurement_of_def measurement_kept_def)
qed

lemma loadMeasurements_loop_eq:
  "loadMeasurements_loop rows acc = acc @ map measurement_of (filter measurement_kept rows)"
proof (induction rows arbitrary: acc)
  case Nil
  show ?case by simp
next
  case (Cons row rows)
  show ?case
    unfolding loadMeasurements_loop_step Cons.IH by simp
qed

text \<open>
  C10. A row of the water levels file that has a well identifier and a date but no water
  table elevation (the column is absent, or its value is empty) is stored, with elevation
  0. The measurements stored are those of the rows kept, in order, and a row is kept
  exactly when its well identifier and its date are non-empty and its elevation text, if
  it has one, does not parse to NaN.
\<close>

theorem loadMeasurements_empty_wte:
  "(row \<in> set rows \<and> truthy (row ''well_id'') \<and> truthy (row ''date'') \<and> \<not> truthy (row ''wte'') \<longrightarrow>
      \<lparr>m_wellId = or_empty (row ''well_id''), m_wellName = or_empty (row ''well_name''),
       m_date = or_empty (row ''date''), m_wte = Fin 0,
       m_aquiferId = or_empty (row ''aquifer_id'')\<rparr> \<in> set (loadMeasurements_loop rows [])) \<and>
   loadMeasurements_loop rows [] = map measurement_of (filter measurement_kept rows) \<and>
   loadMeasurements (Some text) regionId = loadMeasurements_loop (parseCSV text) [] \<and>
   loadMeasurements None regionId = []"
proof (intro conjI impI)
  assume a: "row \<in> set rows \<and> truthy (row ''well_id'') \<and> truthy (row ''date'') \<and>
    \<not> truthy (row ''wte'')"
  then have "measurement_kept row" by (simp add: measurement_kept_def)
  with a have "measurement_of row \<in> set (loadMeasurements_loop rows [])"
    by (simp add: loadMeasurements_loop_eq)
  moreover have "measurement_of row =
      \<lparr>m_wellId = or_empty (row ''well_id''), m_wellName = or_empty (row ''well_name''),
       m_date = or_empty (row ''date''), m_wte = Fin 0,
       m_aquiferId = or_empty (row ''aquifer_id'')\<rparr>"
    using a by (simp add: measurement_of_def)
  ultimately show "\<lparr>m_wellId = or_empty (row ''well_id''), m_wellName = or_empty (row ''well_name''),
       m_date = or_empty (row ''date''), m_wte = Fin 0,
       m_aquiferId = or_empty (row ''aquifer_id'')\<rparr> \<in> set (loadMeasurements_loop rows [])"
    by simp
qed (simp_all add: loadMeasurements_loop_eq loadMeasurements_def)

lemma parseFloat_abc: "parseFloat ''abc'' = NaN"
  by (simp add: parseFloat_def is_space_def is_digit_def)

lemma parseCSV_levels_text:
  "parseCSV levels_text =
     [[''well_id'' \<mapsto> ''A'', ''date'' \<mapsto> ''2020-01-01'', ''wte'' \<mapsto> []],
      [''well_id'' \<mapsto> ''B'', ''date'' \<mapsto> ''2020-01-02'', ''wte'' \<mapsto> ''abc''],
      [''well_id'' \<mapsto> [], ''date'' \<mapsto> ''2020-01-03'', ''wte'' \<mapsto> ''7'']]"
  by (simp add: parseCSV_def levels_text_def trim_def is_space_def Let_def)

theorem loadMeasurements_empty_wte_witness:
  "loadMeasurements (Some levels_text) ''utah'' =
     [\<lparr>m_wellId = ''A'', m_wellName = [], m_date = ''2020-01-01'', m_wte = Fin 0,
       m_aquiferId = []\<rparr>]"
proof -
  define row :: csv_row where
    "row = [''well_id'' \<mapsto> ''A'', ''date'' \<mapsto> ''2020-01-01'', ''wte'' \<mapsto> []]"
  have h: "row \<in> set (parseCSV levels_text) \<and> truthy (row ''well_id'') \<and> truthy (row ''date'') \<and>
    \<not> truthy (row ''wte'')"
    by (simp add: parseCSV_levels_text row_def truthy_def)
  show ?thesis
    using h loadMeasurements_empty_wte [of row "parseCSV levels_text" levels_text "''utah''"]
    by (simp add: parseCSV_levels_text measurement_kept_def measurement_of_def truthy_def
        or_empty_def parseFloat_abc row_def)
qed

lemma parseCSV_wells_text:
  "parseCSV wells_text =
     [[''well_id'' \<mapsto> ''W1'', ''lat'' \<mapsto> ''Infinity'', ''long'' \<mapsto> ''-111.5''],
      [''well_id'' \<mapsto> ''W2'', ''lat'' \<mapsto> ''0'', ''long'' \<mapsto> ''-111.5''],
      [''well_id'' \<mapsto> ''W3'', ''lat'' \<mapsto> ''north'', ''long'' \<mapsto> ''-111.5'']]"
  by (simp add: parseCSV_def wells_text_def trim_def is_space_def Let_def)

lemma parseFloat_neg: "parseFloat ''-111.5'' = Fin (- (223 / 2))"
proof -
  have "parseFloat ''-111.5'' = binary64 (of_int (- 223) / 2 ^ 1)"
    by (simp add: parseFloat_def is_space_def is_digit_def digits_val_def exponent_part_def
        power_int_minus_divide)
  also have "\<dots> = Fin (of_int (- 223) / 2 ^ 1)"
    by (rule binary64_dyadic) simp_all
  finally show ?thesis by simp
qed

lemma parseFloat_north: "parseFloat ''north'' = NaN"
  by (simp add: parseFloat_def is_space_def is_digit_def)

lemma not_jeq_zero: "\<not> jeq a (Fin 0) \<Longrightarrow> a \<noteq> Fin 0"
  by (cases a) auto

lemma loadWells_loop_ok:
  "list_all well_ok wells \<Longrightarrow> list_all well_ok (loadWells_loop regionId rows wells)"
proof (induction rows arbitrary: wells)
  case Nil
  then show ?case by simp
next
  case (Cons row rows)
  show ?case
    unfolding loadWells_loop.simps Let_def
  proof (rule Cons.IH)
    show "list_all well_ok
     (if or_default (row ''well_id'') [] \<noteq> [] \<and>
         \<not> isNaN (parseFloat (or_default (row ''lat'') ''0'')) \<and>
         \<not> isNaN (parseFloat (or_default (row ''long'') ''0'')) \<and>
         \<not> jeq (parseFloat (or_default (row ''lat'') ''0'')) (Fin 0) \<and>
         \<not> jeq (parseFloat (or_default (row ''long'') ''0'')) (Fin 0)
      then wells @
           [\<lparr>w_id = or_default (row ''well_id'') [],
               w_name = or_default (row ''well_name'') (or_default (row ''well_id'') []),
               w_lat = parseFloat (or_default (row ''lat'') ''0''),
               w_lng = parseFloat (or_default (row ''long'') ''0''),
               w_gse = parseFloat (or_default (row ''gse'') ''0''),
               w_aquiferId = or_default (row ''aquifer_id'') [],
               w_aquiferName = or_default (row ''aquifer_name'') [], w_regionId = regionId\<rparr>]
      else wells)"
    proof (cases "or_default (row ''well_id'') [] \<noteq> [] \<and>
         \<not> isNaN (parseFloat (or_default (row ''lat'') ''0'')) \<and>
         \<not> isNaN (parseFloat (or_default (row ''long'') ''0'')) \<and>
         \<not> jeq (parseFloat (or_default (row ''lat'') ''0'')) (Fin 0) \<and>
         \<not> jeq (parseFloat (or_default (row ''long'') ''0'')) (Fin 0)")
      case False
      then show ?thesis using Cons.prems by (simp only: if_False)
    next
      case True
      then have "well_ok \<lparr>w_id = or_default (row ''well_id'') [],
               w_name = or_default (row ''well_name'') (or_default (row ''well_id'') []),
               w_lat = parseFloat (or_default (row ''lat'') ''0''),
               w_lng = parseFloat (or_default (row ''long'') ''0''),
               w_gse = parseFloat (or_default (row ''gse'') ''0''),
               w_aquiferId = or_default (row ''aquifer_id'') [],
               w_aquiferName = or_default (row ''aquifer_name'') [], w_regionId = regionId\<rparr>"
        by (simp add: well_ok_def not_jeq_zero)
      with True Cons.prems show ?thesis by simp
    qed
  qed
qed

lemma loadWells_wells_text:
  "loadWells (Some wells_text) ''utah'' =
     [\<lparr>w_id = ''W1'', w_name = ''W1'', w_lat = PInf, w_lng = Fin (- (223 / 2)), w_gse = Fin 0,
       w_aquiferId = [], w_aquiferName = [], w_regionId = ''utah''\<rparr>]"
  by (simp add: loadWells_def parseCSV_wells_text or_default_def truthy_def or_empty_def
      parseFloat_Infinity parseFloat_neg parseFloat_zero parseFloat_north Let_def)

text \<open>
  C9, as amended. Every well that \<^verbatim>\<open>loadWells\<close> returns has a non-empty identifier and
  a latitude and a longitude that are neither NaN nor zero. An infinite coordinate passes
  this test: the loader does not ask for a finite value.
\<close>

theorem loadWells_coordinates:
  "\<forall>w\<in>set (loadWells response regionId).
     w_id w \<noteq> [] \<and> \<not> isNaN (w_lat w) \<and> \<not> isNaN (w_lng w) \<and> w_lat w \<noteq> Fin 0 \<and> w_lng w \<noteq> Fin 0"
proof (cases response)
  case None
  then show ?thesis by (simp add: loadWells_def)
next
  case (Some content)
  have "list_all well_ok (loadWells_loop regionId (parseCSV content) [])"
    by (rule loadWells_loop_ok) simp
  then show ?thesis
    by (simp add: loadWells_def Some list_all_iff well_ok_def)
qed

theorem loadWells_coordinates_witness:
  "map (\<lambda>w. (w_id w, w_lat w, w_lng w)) (loadWells (Some wells_text) ''utah'') =
     [(''W1'', PInf, Fin (- (223 / 2)))] \<and>
   \<not> isNaN PInf \<and> \<not> isNaN (Fin (- (223 / 2))) \<and> PInf \<noteq> Fin 0 \<and> Fin (- (223 / 2)) \<noteq> Fin 0"
  using loadWells_coordinates [of "Some wells_text" "''utah''"]
  by (simp add: loadWells_wells_text)

text \<open>
  C9, as stated, fails: the wells file whose first row has the latitude \<open>Infinity\<close> gives
  a well with an infinite latitude.
\<close>

theorem loadWells_infinite_latitude:
  "\<not> (\<forall>response regionId. \<forall>w\<in>set (loadWells response regionId).
        isFinite (w_lat w) \<and> isFinite (w_lng w) \<and> w_lat w \<noteq> Fin 0 \<and> w_lng w \<noteq> Fin 0)"
proof
  assume "\<forall>response regionId. \<forall>w\<in>set (loadWells response regionId).
        isFinite (w_lat w) \<and> isFinite (w_lng w) \<and> w_lat w \<noteq> Fin 0 \<and> w_lng w \<noteq> Fin 0"
  then have "\<forall>w\<in>set (loadWells (Some wells_text) ''utah''). isFinite (w_lat w)"
    by blast
  then show False by (simp add: loadWells_wells_text)
qed

section \<open>Properties of the interpolation engine\<close>

lemma jlt_trans: "jlt a b \<Longrightarrow> jlt b c \<Longrightarrow> jlt a c"
  by (cases a; cases b; cases c) auto

lemma jlt_irrefl [simp]: "\<not> jlt a a"
  by (cases a) auto

lemma jlt_not_NaN: "jlt a b \<Longrightarrow> a \<noteq> NaN \<and> b \<noteq> NaN"
  by (cases a; cases b) auto

lemma jle_iff: "jle a b \<longleftrightarrow> jlt a b \<or> (a = b \<and> a \<noteq> NaN)"
  by (cases a; cases b) (auto simp: jle_def)

lemma jlt_jle_trans: "jlt a b \<Longrightarrow> jle b c \<Longrightarrow> jlt a c"
  by (auto simp: jle_iff intro: jlt_trans)

lemma jle_jlt_trans: "jle a b \<Longrightarrow> jlt b c \<Longrightarrow> jlt a c"
  by (auto simp: jle_iff intro: jlt_trans)

lemma jlt_not_jle: "jlt a b \<Longrightarrow> \<not> jle b a"
  by (cases a; cases b) (auto simp: jle_def)

lemma jsnum_total: "a \<noteq> NaN \<Longrightarrow> b \<noteq> NaN \<Longrightarrow> jlt a b \<or> jle b a"
  by (cases a; cases b) (auto simp: jle_def)

lemma increasing_Suc:
  "increasing x \<Longrightarrow> Suc i < length x \<Longrightarrow> jlt (x ! i) (x ! Suc i)"
proof (induction x arbitrary: i rule: increasing.induct)
  case (1 a b r)
  then show ?case by (cases i) auto
qed simp_all

lemma increasing_nth:
  assumes "increasing x" and "i < j" and "j < length x"
  shows "jlt (x ! i) (x ! j)"
  using assms(2,3)
proof (induction j)
  case 0
  then show ?case by simp
next
  case (Suc j)
  have step: "jlt (x ! j) (x ! Suc j)" using assms(1) Suc.prems(2) by (rule increasing_Suc)
  show ?case
  proof (cases "i = j")
    case True
    with step show ?thesis by simp
  next
    case False
    with Suc.prems have "i < j" "j < length x" by simp_all
    from Suc.IH [OF this] step show ?thesis by (rule jlt_trans)
  qed
qed

lemma increasing_not_NaN:
  assumes "increasing x" and "2 \<le> length x" and "j < length x"
  shows "x ! j \<noteq> NaN"
proof (cases "j = 0")
  case True
  have "jlt (x ! 0) (x ! 1)" using assms(1,2) by (intro increasing_nth) simp_all
  then show ?thesis using True jlt_not_NaN by blast
next
  case False
  then have "jlt (x ! 0) (x ! j)" using assms(1,3) by (intro increasing_nth) simp_all
  then show ?thesis using jlt_not_NaN by blast
qed

lemma item_nth: "i < length a \<Longrightarrow> item a i = a ! i"
  by (simp add: item_def)

lemma find_interval_spec:
  assumes "i0 \<le> n - 2" and "\<forall>j<i0. jlt (item x (j + 1)) t"
  shows "i0 \<le> find_interval x n t i0 \<and> find_interval x n t i0 \<le> n - 2 \<and>
         (\<forall>j<find_interval x n t i0. jlt (item x (j + 1)) t) \<and>
         (find_interval x n t i0 < n - 2 \<longrightarrow> \<not> jlt (item x (find_interval x n t i0 + 1)) t)"
  using assms
proof (induction x n t i0 rule: find_interval.induct)
  case (1 x n tx i)
  show ?case
  proof (cases "i < n - 2 \<and> jlt (item x (i + 1)) tx")
    case True
    then have eq: "find_interval x n tx i = find_interval x n tx (i + 1)"
      by (subst find_interval.simps) simp
    have a: "i + 1 \<le> n - 2" using True by simp
    have b: "\<forall>j<i + 1. jlt (item x (j + 1)) tx"
      using True "1.prems"(2) by (auto simp: less_Suc_eq)
    from "1.IH" [OF True a b] show ?thesis unfolding eq by auto
  next
    case False
    then have eq: "find_interval x n tx i = i"
      by (subst find_interval.simps) auto
    show ?thesis unfolding eq using False "1.prems" by auto
  qed
qed

lemma find_interval_inside:
  assumes inc: "increasing x" and n: "2 \<le> length x"
    and lo: "jlt (x ! 0) t" and hi: "jlt t (x ! (length x - 1))"
  defines "r \<equiv> find_interval x (length x) t 0"
  shows "r + 1 < length x" and "jlt (x ! r) t" and "jle t (x ! (r + 1))"
proof -
  have spec: "r \<le> length x - 2" "\<forall>j<r. jlt (item x (j + 1)) t"
    "r < length x - 2 \<longrightarrow> \<not> jlt (item x (r + 1)) t"
    using find_interval_spec [of 0 "length x" x t] by (simp_all add: r_def)
  show r: "r + 1 < length x" using spec(1) n by simp
  show "jlt (x ! r) t"
  proof (cases r)
    case 0
    with lo show ?thesis by simp
  next
    case (Suc j)
    then have "jlt (item x (j + 1)) t" using spec(2) by simp
    then show ?thesis using Suc r by (simp add: item_nth)
  qed
  show "jle t (x ! (r + 1))"
  proof (cases "r < length x - 2")
    case True
    with spec(3) r have "\<not> jlt (x ! (r + 1)) t" by (simp add: item_nth)
    moreover have "x ! (r + 1) \<noteq> NaN" using inc n r by (rule increasing_not_NaN)
    moreover have "t \<noteq> NaN" using lo jlt_not_NaN by blast
    ultimately show ?thesis using jsnum_total by blast
  next
    case False
    with spec(1) have "r = length x - 2" by simp
    then have "r + 1 = length x - 1" using n by simp
    with hi show ?thesis by (simp add: jle_iff)
  qed
qed

lemma interval_unique:
  assumes inc: "increasing x"
    and i: "i + 1 < length x" "jlt (x ! i) t" "jle t (x ! (i + 1))"
    and j: "j + 1 < length x" "jlt (x ! j) t" "jle t (x ! (j + 1))"
  shows "i = j"
proof -
  have no: False
    if "a < b" "b + 1 < length x" "jle t (x ! (a + 1))" "jlt (x ! b) t" for a b
  proof -
    have "jle (x ! (a + 1)) (x ! b)"
    proof (cases "a + 1 = b")
      case True
      have "x ! b \<noteq> NaN" using that(4) jlt_not_NaN by blast
      with True show ?thesis by (simp add: jle_iff)
    next
      case False
      with that have "a + 1 < b" "b < length x" by simp_all
      from increasing_nth [OF inc this] show ?thesis by (simp add: jle_iff)
    qed
    then have "jlt (x ! (a + 1)) t" using that(4) by (rule jle_jlt_trans)
    with that(3) show False using jlt_not_jle by blast
  qed
  show ?thesis
  proof (rule ccontr)
    assume "i \<noteq> j"
    then consider "i < j" | "j < i" by linarith
    then show False
    proof cases
      case 1
      from no [OF 1 j(1) i(3) j(2)] show False .
    next
      case 2
      from no [OF 2 i(1) j(3) i(2)] show False .
    qed
  qed
qed

lemma interpolatePCHIP_A_nth:
  assumes "2 \<le> length x" and "k < length targetX"
  shows "interpolatePCHIP_A rd x y targetX ! k =
     (if jle (targetX ! k) (item x 0) then item y 0
      else if jge (targetX ! k) (item x (length x - 1)) then item y (length x - 1)
      else hermite rd x y (intervals rd x)
             (slopes rd (length x) (intervals rd x) (secants rd x y (intervals rd x)))
             (find_interval x (length x) (targetX ! k) 0) (targetX ! k))"
  using assms by (simp add: interpolatePCHIP_A_def Let_def)

lemma interpolatePCHIP_B_nth:
  assumes "3 \<le> length x" and "k < length targetX"
  shows "interpolatePCHIP_B rd x y targetX ! k =
     (if jle (targetX ! k) (item x 0) then item y 0
      else if jge (targetX ! k) (item x (length x - 1)) then item y (length x - 1)
      else spline_value rd x y (intervals rd x) (secants rd x y (intervals rd x))
             (second_derivatives rd (length x) (intervals rd x) (secants rd x y (intervals rd x)))
             (find_interval x (length x) (targetX ! k) 0) (targetX ! k))"
  using assms by (simp add: interpolatePCHIP_B_def Let_def)

lemma interpolatePCHIP_B_nth2:
  assumes "length x = 2" and "k < length targetX"
  shows "interpolatePCHIP_B rd x y targetX ! k =
     (if jle (targetX ! k) (item x 0) then item y 0
      else if jge (targetX ! k) (item x 1) then item y 1
      else jadd rd (item y 0)
             (jmul rd (jdiv rd (jsub rd (item y 1) (item y 0)) (jsub rd (item x 1) (item x 0)))
                (jsub rd (targetX ! k) (item x 0))))"
  using assms by (simp add: interpolatePCHIP_B_def Let_def)

lemma length_interpolatePCHIP_A [simp]: "length (interpolatePCHIP_A rd x y targetX) = length targetX"
  by (simp add: interpolatePCHIP_A_def Let_def)

lemma length_interpolatePCHIP_B [simp]: "length (interpolatePCHIP_B rd x y targetX) = length targetX"
  by (simp add: interpolatePCHIP_B_def Let_def)

lemma above_last_not_below_first:
  assumes "increasing x" and "2 \<le> length x" and "jge t (x ! (length x - 1))"
  shows "\<not> jle t (x ! 0)"
proof -
  have "jlt (x ! 0) (x ! (length x - 1))" using assms(1,2) by (intro increasing_nth) simp_all
  moreover have "jle (x ! (length x - 1)) t" using assms(3) by (simp add: jge_def)
  ultimately have "jlt (x ! 0) t" by (rule jlt_jle_trans)
  then show ?thesis by (rule jlt_not_jle)
qed

text \<open>
  C2. Both strategies clamp at the ends of the range, whatever the rounding of the
  arithmetic: for at least two strictly increasing abscissas and as many ordinates, the
  result has one value for each target; a target at or below \<open>x[0]\<close> gets the value
  \<open>y[0]\<close> itself, and a target at or above \<open>x[n - 1]\<close> gets \<open>y[n - 1]\<close> itself, read
  from the array and not computed.
\<close>

theorem boundaries_clamped:
  assumes "increasing x" and "2 \<le> length x" and "length y = length x" and "k < length targetX"
  shows "length (interpolatePCHIP_A rd x y targetX) = length targetX \<and>
         length (interpolatePCHIP_B rd x y targetX) = length targetX \<and>
         (jle (targetX ! k) (x ! 0) \<longrightarrow>
            interpolatePCHIP_A rd x y targetX ! k = y ! 0 \<and>
            interpolatePCHIP_B rd x y targetX ! k = y ! 0) \<and>
         (jge (targetX ! k) (x ! (length x - 1)) \<longrightarrow>
            interpolatePCHIP_A rd x y targetX ! k = y ! (length x - 1) \<and>
            interpolatePCHIP_B rd x y targetX ! k = y ! (length x - 1))"
proof -
  have len: "0 < length x" "length x - 1 < length x" "0 < length y" "length x - 1 < length y"
    using assms(2,3) by auto
  have x0: "item x 0 = x ! 0" and xn: "item x (length x - 1) = x ! (length x - 1)"
    and y0: "item y 0 = y ! 0" and yn: "item y (length x - 1) = y ! (length x - 1)"
    using len by (simp_all only: item_nth)
  have A: "interpolatePCHIP_A rd x y targetX ! k =
     (if jle (targetX ! k) (x ! 0) then y ! 0
      else if jge (targetX ! k) (x ! (length x - 1)) then y ! (length x - 1)
      else hermite rd x y (intervals rd x)
             (slopes rd (length x) (intervals rd x) (secants rd x y (intervals rd x)))
             (find_interval x (length x) (targetX ! k) 0) (targetX ! k))"
    using interpolatePCHIP_A_nth [OF assms(2,4), of rd y] by (simp only: x0 xn y0 yn)
  have B: "(jle (targetX ! k) (x ! 0) \<longrightarrow> interpolatePCHIP_B rd x y targetX ! k = y ! 0) \<and>
     (\<not> jle (targetX ! k) (x ! 0) \<and> jge (targetX ! k) (x ! (length x - 1)) \<longrightarrow>
        interpolatePCHIP_B rd x y targetX ! k = y ! (length x - 1))"
  proof (cases "length x = 2")
    case True
    then have x1: "item x 1 = x ! (length x - 1)" and y1: "item y 1 = y ! (length x - 1)"
      using assms(3) by (simp_all add: item_nth)
    have "interpolatePCHIP_B rd x y targetX ! k =
     (if jle (targetX ! k) (x ! 0) then y ! 0
      else if jge (targetX ! k) (x ! (length x - 1)) then y ! (length x - 1)
      else jadd rd (y ! 0)
             (jmul rd (jdiv rd (jsub rd (y ! (length x - 1)) (y ! 0))
                (jsub rd (x ! (length x - 1)) (x ! 0)))
                (jsub rd (targetX ! k) (x ! 0))))"
      using interpolatePCHIP_B_nth2 [OF True assms(4), of rd y] by (simp only: x0 y0 x1 y1)
    then show ?thesis by simp
  next
    case False
    with assms(2) have "3 \<le> length x" by simp
    from interpolatePCHIP_B_nth [OF this assms(4), of rd y]
    have "interpolatePCHIP_B rd x y targetX ! k =
     (if jle (targetX ! k) (x ! 0) then y ! 0
      else if jge (targetX ! k) (x ! (length x - 1)) then y ! (length x - 1)
      else spline_value rd x y (intervals rd x) (secants rd x y (intervals rd x))
             (second_derivatives rd (length x) (intervals rd x) (secants rd x y (intervals rd x)))
             (find_interval x (length x) (targetX ! k) 0) (targetX ! k))"
      by (simp only: x0 xn y0 yn)
    then show ?thesis by simp
  qed
  have top: "\<not> jle (targetX ! k) (x ! 0)" if "jge (targetX ! k) (x ! (length x - 1))"
    using assms(1,2) that by (rule above_last_not_below_first)
  show ?thesis using A B top by simp
qed

theorem boundaries_clamped_witness:
  "interpolatePCHIP_A binary64 three_samples three_values outside_targets ! 0 = Fin 1 \<and>
   interpolatePCHIP_B binary64 three_samples three_values outside_targets ! 1 = Fin 1 \<and>
   interpolatePCHIP_A binary64 three_samples three_values outside_targets ! 2 = Fin 3 \<and>
   interpolatePCHIP_B binary64 three_samples three_values outside_targets ! 3 = Fin 3"
proof -
  have h: "increasing three_samples" "2 \<le> length three_samples"
    "length three_values = length three_samples"
    by (simp_all add: three_samples_def three_values_def)
  have k: "0 < length outside_targets" "1 < length outside_targets"
    "2 < length outside_targets" "3 < length outside_targets"
    by (simp_all add: outside_targets_def)
  have c: "jle (outside_targets ! 0) (three_samples ! 0)"
    "jle (outside_targets ! 1) (three_samples ! 0)"
    "jge (outside_targets ! 2) (three_samples ! (length three_samples - 1))"
    "jge (outside_targets ! 3) (three_samples ! (length three_samples - 1))"
    by (simp_all add: outside_targets_def three_samples_def jle_def jge_def)
  show ?thesis
    using c boundaries_clamped [OF h k(1), of binary64] boundaries_clamped [OF h k(2), of binary64]
      boundaries_clamped [OF h k(3), of binary64] boundaries_clamped [OF h k(4), of binary64]
    by (simp add: three_values_def three_samples_def)
qed

text \<open>
  Strategy B in double precision on the samples \<open>x = [0, 98]\<close>, \<open>y = [0, 2]\<close> and the
  target 49: the slope \<open>2 / 98\<close> rounds down, and so does its product with 49.
\<close>

lemma two_samples_example:
  "interpolatePCHIP_B binary64 [Fin 0, Fin 98] [Fin 0, Fin 2] [Fin 49] =
     [Fin (9007199254740991 / 9007199254740992)]"
proof -
  have s1: "jdiv binary64 (Fin 2) (Fin 98) = Fin (5882252574524729 / 288230376151711744)"
    using binary64_round [of 58 "2 / 98" 5882252574524729] by simp
  have s2: "jmul binary64 (Fin (5882252574524729 / 288230376151711744)) (Fin 49) =
      Fin (9007199254740991 / 9007199254740992)"
    using binary64_round [of 53 "(5882252574524729 / 288230376151711744) * 49" 9007199254740991]
    by simp
  have s3: "jadd binary64 (Fin 0) (Fin (9007199254740991 / 9007199254740992)) =
      Fin (9007199254740991 / 9007199254740992)"
    using binary64_dyadic [of 9007199254740991 53] by simp
  have d: "jsub binary64 (Fin 2) (Fin 0) = Fin 2" "jsub binary64 (Fin 98) (Fin 0) = Fin 98"
    "jsub binary64 (Fin 49) (Fin 0) = Fin 49"
    by (simp_all add: jsub_def)
  have c: "\<not> jle (Fin 49) (Fin 0)" "\<not> jge (Fin 49) (Fin 98)"
    by (simp_all add: jle_def jge_def)
  have "interpolatePCHIP_B binary64 [Fin 0, Fin 98] [Fin 0, Fin 2] [Fin 49] =
     [jadd binary64 (Fin 0)
        (jmul binary64 (jdiv binary64 (jsub binary64 (Fin 2) (Fin 0)) (jsub binary64 (Fin 98) (Fin 0)))
           (jsub binary64 (Fin 49) (Fin 0)))]"
    using c by (simp add: interpolatePCHIP_B_def item_def)
  then show ?thesis unfolding d s1 s2 s3 .
qed

text \<open>
  C5, as stated, fails in double precision: for the samples \<open>x = [0, 98]\<close>,
  \<open>y = [0, 2]\<close> and the target 49 the linear interpolant is 1, and Strategy B returns
  \<open>9007199254740991 / 9007199254740992\<close>, the double before 1.
\<close>

theorem two_samples_rounded:
  "\<not> (\<forall>x0 x1 y0 y1 t.
        binary64 x0 = Fin x0 \<and> binary64 x1 = Fin x1 \<and> binary64 y0 = Fin y0 \<and>
        binary64 y1 = Fin y1 \<and> binary64 t = Fin t \<and> x0 < t \<and> t < x1 \<longrightarrow>
        interpolatePCHIP_B binary64 [Fin x0, Fin x1] [Fin y0, Fin y1] [Fin t] =
          [Fin (y0 + (y1 - y0) / (x1 - x0) * (t - x0))])"
proof
  assume a: "\<forall>x0 x1 y0 y1 t.
        binary64 x0 = Fin x0 \<and> binary64 x1 = Fin x1 \<and> binary64 y0 = Fin y0 \<and>
        binary64 y1 = Fin y1 \<and> binary64 t = Fin t \<and> x0 < t \<and> t < x1 \<longrightarrow>
        interpolatePCHIP_B binary64 [Fin x0, Fin x1] [Fin y0, Fin y1] [Fin t] =
          [Fin (y0 + (y1 - y0) / (x1 - x0) * (t - x0))]"
  have h: "binary64 0 = Fin 0 \<and> binary64 98 = Fin 98 \<and> binary64 0 = Fin 0 \<and>
        binary64 2 = Fin 2 \<and> binary64 49 = Fin 49 \<and> (0::real) < 49 \<and> (49::real) < 98"
    by simp
  from a [rule_format, OF h]
  have "interpolatePCHIP_B binary64 [Fin 0, Fin 98] [Fin 0, Fin 2] [Fin 49] = [Fin 1]"
    by simp
  then show False unfolding two_samples_example by simp
qed

text \<open>
  C5. Strategy B with two samples, for a target strictly between the two abscissas. The
  result is the linear interpolant \<open>y[0] + ((y[1] - y[0]) / (x[1] - x[0])) * (t - x[0])\<close>
  whenever none of the two differences, the quotient, the difference \<open>t - x[0]\<close>, the
  product and the sum is changed by rounding; so it is the linear interpolant in exact
  arithmetic, and in double precision the samples \<open>x = [0, 10]\<close>, \<open>y = [0, 100]\<close> and
  the target 5 give exactly 50.
\<close>

theorem two_samples_linear:
  "(x0 < t \<and> t < x1 \<and>
    rd (y1 - y0) = Fin (y1 - y0) \<and> rd (x1 - x0) = Fin (x1 - x0) \<and>
    rd ((y1 - y0) / (x1 - x0)) = Fin ((y1 - y0) / (x1 - x0)) \<and>
    rd (t - x0) = Fin (t - x0) \<and>
    rd ((y1 - y0) / (x1 - x0) * (t - x0)) = Fin ((y1 - y0) / (x1 - x0) * (t - x0)) \<and>
    rd (y0 + (y1 - y0) / (x1 - x0) * (t - x0)) = Fin (y0 + (y1 - y0) / (x1 - x0) * (t - x0)) \<longrightarrow>
      interpolatePCHIP_B rd [Fin x0, Fin x1] [Fin y0, Fin y1] [Fin t] =
        [Fin (y0 + (y1 - y0) / (x1 - x0) * (t - x0))]) \<and>
   (a < s \<and> s < b \<longrightarrow>
      interpolatePCHIP_B Fin [Fin a, Fin b] [Fin u, Fin v] [Fin s] =
        [Fin (u + (v - u) / (b - a) * (s - a))]) \<and>
   interpolatePCHIP_B binary64 [Fin 0, Fin 10] [Fin 0, Fin 100] [Fin 5] = [Fin 50]"
proof (intro conjI impI)
  assume h: "x0 < t \<and> t < x1 \<and>
    rd (y1 - y0) = Fin (y1 - y0) \<and> rd (x1 - x0) = Fin (x1 - x0) \<and>
    rd ((y1 - y0) / (x1 - x0)) = Fin ((y1 - y0) / (x1 - x0)) \<and>
    rd (t - x0) = Fin (t - x0) \<and>
    rd ((y1 - y0) / (x1 - x0) * (t - x0)) = Fin ((y1 - y0) / (x1 - x0) * (t - x0)) \<and>
    rd (y0 + (y1 - y0) / (x1 - x0) * (t - x0)) = Fin (y0 + (y1 - y0) / (x1 - x0) * (t - x0))"
  then have c: "\<not> jle (Fin t) (Fin x0)" "\<not> jge (Fin t) (Fin x1)" "x1 - x0 \<noteq> 0"
    by (simp_all add: jle_def jge_def)
  have "interpolatePCHIP_B rd [Fin x0, Fin x1] [Fin y0, Fin y1] [Fin t] =
     [jadd rd (Fin y0)
        (jmul rd (jdiv rd (jsub rd (Fin y1) (Fin y0)) (jsub rd (Fin x1) (Fin x0)))
           (jsub rd (Fin t) (Fin x0)))]"
    using c by (simp add: interpolatePCHIP_B_def item_def)
  also have "\<dots> = [Fin (y0 + (y1 - y0) / (x1 - x0) * (t - x0))]"
    using h c(3) by (simp add: jsub_def)
  finally show "interpolatePCHIP_B rd [Fin x0, Fin x1] [Fin y0, Fin y1] [Fin t] =
        [Fin (y0 + (y1 - y0) / (x1 - x0) * (t - x0))]" .
next
  assume "a < s \<and> s < b"
  then show "interpolatePCHIP_B Fin [Fin a, Fin b] [Fin u, Fin v] [Fin s] =
        [Fin (u + (v - u) / (b - a) * (s - a))]"
    by (simp add: interpolatePCHIP_B_def item_def jle_def jge_def jsub_def)
next
  show "interpolatePCHIP_B binary64 [Fin 0, Fin 10] [Fin 0, Fin 100] [Fin 5] = [Fin 50]"
    by (simp add: interpolatePCHIP_B_def item_def jle_def jge_def jsub_def)
qed

theorem two_samples_linear_witness:
  "(0::real) < 5 \<and> (5::real) < 10 \<and>
   binary64 (100 - 0) = Fin (100 - 0) \<and> binary64 (10 - 0) = Fin (10 - 0) \<and>
   binary64 ((100 - 0) / (10 - 0)) = Fin ((100 - 0) / (10 - 0)) \<and>
   binary64 (5 - 0) = Fin (5 - 0) \<and>
   binary64 ((100 - 0) / (10 - 0) * (5 - 0)) = Fin ((100 - 0) / (10 - 0) * (5 - 0)) \<and>
   binary64 (0 + (100 - 0) / (10 - 0) * (5 - 0)) = Fin (0 + (100 - 0) / (10 - 0) * (5 - 0)) \<and>
   interpolatePCHIP_B binary64 [Fin 0, Fin 10] [Fin 0, Fin 100] [Fin 5] = [Fin 50] \<and>
   interpolatePCHIP_B Fin [Fin 0, Fin 10] [Fin 0, Fin 100] [Fin 5] = [Fin 50]"
proof -
  have h: "(0::real) < 5 \<and> (5::real) < 10 \<and>
   binary64 (100 - 0) = Fin (100 - 0) \<and> binary64 (10 - 0) = Fin (10 - 0) \<and>
   binary64 ((100 - 0) / (10 - 0)) = Fin ((100 - 0) / (10 - 0)) \<and>
   binary64 (5 - 0) = Fin (5 - 0) \<and>
   binary64 ((100 - 0) / (10 - 0) * (5 - 0)) = Fin ((100 - 0) / (10 - 0) * (5 - 0)) \<and>
   binary64 (0 + (100 - 0) / (10 - 0) * (5 - 0)) = Fin (0 + (100 - 0) / (10 - 0) * (5 - 0))"
    by simp
  have g: "(0::real) < 5 \<and> (5::real) < 10" by simp
  from two_samples_linear [of 0 5 10 binary64 100 0 0 5 10 0 100]
  have "interpolatePCHIP_B binary64 [Fin 0, Fin 10] [Fin 0, Fin 100] [Fin 5] =
          [Fin (0 + (100 - 0) / (10 - 0) * (5 - 0))]"
    and "interpolatePCHIP_B Fin [Fin 0, Fin 10] [Fin 0, Fin 100] [Fin 5] =
          [Fin (0 + (100 - 0) / (10 - 0) * (5 - 0))]"
    using h g by blast+
  then show ?thesis using h by simp
qed

lemma find_interval_example: "find_interval unit_samples (length unit_samples) (Fin 1) 0 = 0"
  by (simp add: find_interval.simps item_def unit_samples_def)

text \<open>
  C6, as stated, fails at a target that is an interior sample abscissa: for
  \<open>x = [0, 1, 2]\<close> and the target 1 the loop stops at index 0, while the largest \<open>i\<close>
  with \<open>x[i] \<le> 1 < x[i + 1]\<close> is 1.
\<close>

theorem interval_index_at_sample:
  "\<not> (\<forall>x t. increasing x \<and> 3 \<le> length x \<and> jlt (x ! 0) t \<and> jlt t (x ! (length x - 1)) \<longrightarrow>
         largest_interval x t (find_interval x (length x) t 0))"
proof
  assume "\<forall>x t. increasing x \<and> 3 \<le> length x \<and> jlt (x ! 0) t \<and> jlt t (x ! (length x - 1)) \<longrightarrow>
         largest_interval x t (find_interval x (length x) t 0)"
  then have "increasing unit_samples \<and> 3 \<le> length unit_samples \<and>
      jlt (unit_samples ! 0) (Fin 1) \<and>
      jlt (Fin 1) (unit_samples ! (length unit_samples - 1)) \<longrightarrow>
      largest_interval unit_samples (Fin 1)
        (find_interval unit_samples (length unit_samples) (Fin 1) 0)"
    by blast
  moreover have "increasing unit_samples \<and> 3 \<le> length unit_samples \<and>
      jlt (unit_samples ! 0) (Fin 1) \<and>
      jlt (Fin 1) (unit_samples ! (length unit_samples - 1))"
    by (simp add: unit_samples_def)
  ultimately have "largest_interval unit_samples (Fin 1) 0"
    unfolding find_interval_example by blast
  then show False
    by (simp add: largest_interval_def interval_candidates_def jle_def upt_rec unit_samples_def)
qed

lemma filter_upt_single:
  assumes "i < m" and "\<And>j. j < m \<Longrightarrow> P j \<longleftrightarrow> j = i"
  shows "filter P [0..<m] = [i]"
proof -
  have "filter P [0..<m] = filter (\<lambda>j. j = i) [0..<m]"
    using assms(2) by (intro filter_cong) auto
  also have "\<dots> = filter (\<lambda>j. j = i) ([0..<i] @ [i] @ [Suc i..<m])"
    using assms(1) by (metis append_Cons append_Nil le0 upt_add_eq_append upt_conv_Cons
        less_imp_le_nat le_add_diff_inverse)
  also have "\<dots> = [i]" by (simp add: filter_empty_conv)
  finally show ?thesis .
qed

lemma singleton_nth0: "length xs = 1 \<Longrightarrow> xs = [xs ! 0]"
  by (cases xs) simp_all

text \<open>
  C6, as amended. For strictly increasing abscissas, at least three of them, and a target
  strictly inside the range, the index both strategies evaluate at is the only \<open>i\<close> with
  \<open>x[i] < t \<le> x[i + 1]\<close>; when the target is not a sample abscissa this is the largest
  \<open>i\<close> with \<open>x[i] \<le> t < x[i + 1]\<close>.
\<close>

theorem interval_index_selected:
  assumes "increasing x" and "3 \<le> length x" and "jlt (x ! 0) t"
    and "jlt t (x ! (length x - 1))"
  shows "filter (\<lambda>i. jlt (x ! i) t \<and> jle t (x ! (i + 1))) [0..<length x - 1] =
           [find_interval x (length x) t 0] \<and>
         (t \<notin> set x \<longrightarrow> largest_interval x t (find_interval x (length x) t 0)) \<and>
         interpolatePCHIP_A rd x y [t] =
           [hermite rd x y (intervals rd x)
              (slopes rd (length x) (intervals rd x) (secants rd x y (intervals rd x)))
              (find_interval x (length x) t 0) t] \<and>
         interpolatePCHIP_B rd x y [t] =
           [spline_value rd x y (intervals rd x) (secants rd x y (intervals rd x))
              (second_derivatives rd (length x) (intervals rd x) (secants rd x y (intervals rd x)))
              (find_interval x (length x) t 0) t]"
proof -
  define r where "r = find_interval x (length x) t 0"
  have n2: "2 \<le> length x" using assms(2) by simp
  have r: "r + 1 < length x" "jlt (x ! r) t" "jle t (x ! (r + 1))"
    unfolding r_def using assms(1) n2 assms(3,4) by (rule find_interval_inside)+
  have uniq: "(jlt (x ! j) t \<and> jle t (x ! (j + 1))) \<longleftrightarrow> j = r" if "j < length x - 1" for j
  proof
    assume "jlt (x ! j) t \<and> jle t (x ! (j + 1))"
    with that show "j = r"
      using interval_unique [OF assms(1), of j t r] r by simp
  next
    assume "j = r"
    with r show "jlt (x ! j) t \<and> jle t (x ! (j + 1))" by simp
  qed
  have one: "filter (\<lambda>i. jlt (x ! i) t \<and> jle t (x ! (i + 1))) [0..<length x - 1] = [r]"
    using r(1) uniq by (intro filter_upt_single) simp_all
  have largest: "largest_interval x t r" if "t \<notin> set x"
  proof -
    have ne: "x ! j \<noteq> t" if "j < length x" for j
      using \<open>t \<notin> set x\<close> that by (metis nth_mem)
    have "(jle (x ! j) t \<and> jlt t (x ! (j + 1))) \<longleftrightarrow> (jlt (x ! j) t \<and> jle t (x ! (j + 1)))"
      if "j < length x - 1" for j
    proof -
      from that have "j < length x" "j + 1 < length x" by simp_all
      then have "x ! j \<noteq> t" "x ! (j + 1) \<noteq> t" using ne by blast+
      then show ?thesis by (auto simp: jle_iff)
    qed
    then have "interval_candidates x t =
        filter (\<lambda>i. jlt (x ! i) t \<and> jle t (x ! (i + 1))) [0..<length x - 1]"
      unfolding interval_candidates_def by (intro filter_cong) auto
    then have "interval_candidates x t = [r]" unfolding one .
    then show ?thesis by (simp add: largest_interval_def)
  qed
  have len: "0 < length x" "length x - 1 < length x" using n2 by auto
  have inside: "\<not> jle t (item x 0)" "\<not> jge t (item x (length x - 1))"
    unfolding item_nth [OF len(1)] item_nth [OF len(2)] jge_def
    using assms(3,4) by (simp_all add: jlt_not_jle)
  have A: "interpolatePCHIP_A rd x y [t] ! 0 =
      hermite rd x y (intervals rd x)
        (slopes rd (length x) (intervals rd x) (secants rd x y (intervals rd x))) r t"
    using interpolatePCHIP_A_nth [OF n2, of 0 "[t]" rd y] inside by (simp add: r_def)
  have B: "interpolatePCHIP_B rd x y [t] ! 0 =
      spline_value rd x y (intervals rd x) (secants rd x y (intervals rd x))
        (second_derivatives rd (length x) (intervals rd x) (secants rd x y (intervals rd x))) r t"
    using interpolatePCHIP_B_nth [OF assms(2), of 0 "[t]" rd y] inside by (simp add: r_def)
  have A': "interpolatePCHIP_A rd x y [t] = [interpolatePCHIP_A rd x y [t] ! 0]"
    by (rule singleton_nth0) simp
  have B': "interpolatePCHIP_B rd x y [t] = [interpolatePCHIP_B rd x y [t] ! 0]"
    by (rule singleton_nth0) simp
  show ?thesis
    unfolding r_def [symmetric] using one largest A B A' B' by simp
qed

theorem interval_index_selected_witness:
  "find_interval four_samples (length four_samples) (Fin 20) 0 = 1 \<and>
   find_interval four_samples (length four_samples) (Fin 13) 0 = 1 \<and>
   largest_interval four_samples (Fin 13) 1 \<and> \<not> largest_interval four_samples (Fin 20) 1"
proof -
  have h: "increasing four_samples" "3 \<le> length four_samples"
    "jlt (four_samples ! 0) (Fin 20)" "jlt (Fin 20) (four_samples ! (length four_samples - 1))"
    "jlt (four_samples ! 0) (Fin 13)" "jlt (Fin 13) (four_samples ! (length four_samples - 1))"
    by (simp_all add: four_samples_def)
  have a: "filter (\<lambda>i. jlt (four_samples ! i) (Fin 20) \<and> jle (Fin 20) (four_samples ! (i + 1)))
      [0..<length four_samples - 1] = [1]"
    by (simp add: four_samples_def upt_rec jle_def)
  have b: "filter (\<lambda>i. jlt (four_samples ! i) (Fin 13) \<and> jle (Fin 13) (four_samples ! (i + 1)))
      [0..<length four_samples - 1] = [1]"
    by (simp add: four_samples_def upt_rec jle_def)
  have c: "Fin 13 \<notin> set four_samples" by (simp add: four_samples_def)
  have d: "\<not> largest_interval four_samples (Fin 20) 1"
    by (simp add: largest_interval_def interval_candidates_def four_samples_def upt_rec jle_def)
  note t20 = interval_index_selected [OF h(1,2,3,4), of binary64 four_samples,
      THEN conjunct1, unfolded a]
  note t13 = interval_index_selected [OF h(1,2,5,6), of binary64 four_samples,
      THEN conjunct1, unfolded b]
  note l13 = interval_index_selected [OF h(1,2,5,6), of binary64 four_samples,
      THEN conjunct2, THEN conjunct1, rule_format, OF c]
  have e20: "find_interval four_samples (length four_samples) (Fin 20) 0 = 1"
    using t20 by simp
  have e13: "find_interval four_samples (length four_samples) (Fin 13) 0 = 1"
    using t13 by simp
  from l13 have "largest_interval four_samples (Fin 13) 1" unfolding e13 .
  with e20 e13 d show ?thesis by (intro conjI)
qed

lemma item_map_Fin: "j < length xs \<Longrightarrow> item (map Fin xs) j = Fin (xs ! j)"
  by (simp add: item_def)

lemma increasing_map_Fin: "sorted_wrt (<) xs \<Longrightarrow> increasing (map Fin xs)"
proof (induction xs)
  case Nil
  show ?case by simp
next
  case (Cons a xs)
  then show ?case by (cases xs) auto
qed

lemma strict_nth: "sorted_wrt (<) xs \<Longrightarrow> i < j \<Longrightarrow> j < length xs \<Longrightarrow> xs ! i < xs ! j"
  by (simp add: sorted_wrt_iff_nth_less)

lemma item_intervals:
  assumes "j + 1 < length xs"
  shows "item (intervals Fin (map Fin xs)) j = Fin (xs ! (j + 1) - xs ! j)"
  using assms by (simp add: item_def intervals_def jsub_def)

lemma item_secants:
  assumes "sorted_wrt (<) xs" and "length ys = length xs" and "j + 1 < length xs"
  shows "item (secants Fin (map Fin xs) (map Fin ys) (intervals Fin (map Fin xs))) j =
           Fin (secant xs ys j)"
proof -
  have "xs ! j < xs ! (j + 1)" using assms(1,3) by (intro strict_nth) simp_all
  then have nz: "xs ! (j + 1) - xs ! j \<noteq> 0" by simp
  have j: "j < length xs - 1" using assms(3) by simp
  have "item (secants Fin (map Fin xs) (map Fin ys) (intervals Fin (map Fin xs))) j =
      (if jeq (item (intervals Fin (map Fin xs)) j) (Fin 0) then Fin 0
       else jdiv Fin (jsub Fin (item (map Fin ys) (j + 1)) (item (map Fin ys) j))
              (item (intervals Fin (map Fin xs)) j))"
    using j by (simp add: item_def secants_def)
  also have "\<dots> = Fin (secant xs ys j)"
    unfolding item_intervals [OF assms(3)]
    using nz assms(2,3) by (simp add: item_map_Fin jsub_def secant_def)
  finally show ?thesis .
qed


lemma jle_Fin [simp]: "jle (Fin u) (Fin v) \<longleftrightarrow> u \<le> v"
  by (auto simp: jle_def)

lemma jge_Fin [simp]: "jge (Fin u) (Fin v) \<longleftrightarrow> v \<le> u"
  by (simp add: jge_def)

lemma jsub_Fin [simp]: "jsub Fin (Fin u) (Fin v) = Fin (u - v)"
  by (simp add: jsub_def)

lemma slope_at_exact:
  assumes "item delta (j - 1) = Fin d0" and "item delta j = Fin d1"
    and "item h (j - 1) = Fin h0" and "item h j = Fin h1"
  shows "\<exists>v. slope_at Fin h delta j = Fin v" and "d0 * d1 \<le> 0 \<Longrightarrow> slope_at Fin h delta j = Fin 0"
proof -
  show "d0 * d1 \<le> 0 \<Longrightarrow> slope_at Fin h delta j = Fin 0"
    using assms by (simp add: slope_at_def)
  show "\<exists>v. slope_at Fin h delta j = Fin v"
  proof (cases "d0 * d1 \<le> 0")
    case True
    then show ?thesis using assms by (simp add: slope_at_def)
  next
    case False
    then have nz: "d0 \<noteq> 0" "d1 \<noteq> 0" by auto
    show ?thesis
      using False nz assms by (simp add: slope_at_def Let_def)
  qed
qed

lemma item_slopes:
  assumes "j < n"
  shows "item (slopes rd n h delta) j =
     (if j = 0 then (if isFinite (item delta 0) then item delta 0 else Fin 0)
      else if j = n - 1 then (if isFinite (item delta (n - 2)) then item delta (n - 2) else Fin 0)
      else slope_at rd h delta j)"
  using assms by (simp add: item_def slopes_def)

lemma hermite_exact:
  assumes "item x k = Fin xk" and "item y k = Fin yk" and "item y (k + 1) = Fin yk1"
    and "item h k = Fin hk" and "hk \<noteq> 0" and "item m k = Fin mk" and "item m (k + 1) = Fin mk1"
  shows "hermite Fin x y h m k (Fin t) =
     Fin ((2 * ((t - xk) / hk) ^ 3 - 3 * ((t - xk) / hk) ^ 2 + 1) * yk +
          (((t - xk) / hk) ^ 3 - 2 * ((t - xk) / hk) ^ 2 + (t - xk) / hk) * hk * mk +
          (- 2 * ((t - xk) / hk) ^ 3 + 3 * ((t - xk) / hk) ^ 2) * yk1 +
          (((t - xk) / hk) ^ 3 - ((t - xk) / hk) ^ 2) * hk * mk1)"
  using assms
  by (simp add: hermite_def Let_def power2_eq_square power3_eq_cube)

lemma basis_bounds:
  fixes s :: real
  assumes "0 \<le> s" and "s \<le> 1"
  shows "0 \<le> - 2 * s ^ 3 + 3 * s ^ 2" and "- 2 * s ^ 3 + 3 * s ^ 2 \<le> 1"
proof -
  have a: "- 2 * s ^ 3 + 3 * s ^ 2 = s ^ 2 * (3 - 2 * s)"
    by (simp add: power2_eq_square power3_eq_cube algebra_simps)
  have "0 \<le> s ^ 2 * (3 - 2 * s)" using assms by (intro mult_nonneg_nonneg) simp_all
  then show "0 \<le> - 2 * s ^ 3 + 3 * s ^ 2" by (simp only: a)
  have b: "1 - (- 2 * s ^ 3 + 3 * s ^ 2) = (1 - s) ^ 2 * (1 + 2 * s)"
    by (simp add: power2_eq_square power3_eq_cube algebra_simps)
  have "0 \<le> (1 - s) ^ 2 * (1 + 2 * s)" using assms by (intro mult_nonneg_nonneg) simp_all
  then have "0 \<le> 1 - (- 2 * s ^ 3 + 3 * s ^ 2)" by (simp only: b)
  then show "- 2 * s ^ 3 + 3 * s ^ 2 \<le> 1" by simp
qed

lemma convex_between:
  fixes a b w :: real
  assumes "0 \<le> w" and "w \<le> 1"
  shows "min a b \<le> (1 - w) * a + w * b" and "(1 - w) * a + w * b \<le> max a b"
proof -
  have "(1 - w) * min a b \<le> (1 - w) * a" "w * min a b \<le> w * b"
    using assms by (simp_all add: mult_left_mono)
  then have "(1 - w) * min a b + w * min a b \<le> (1 - w) * a + w * b" by (rule add_mono)
  then show "min a b \<le> (1 - w) * a + w * b" by (simp add: algebra_simps)
  have "(1 - w) * a \<le> (1 - w) * max a b" "w * b \<le> w * max a b"
    using assms by (simp_all add: mult_left_mono)
  then have "(1 - w) * a + w * b \<le> (1 - w) * max a b + w * max a b" by (rule add_mono)
  then show "(1 - w) * a + w * b \<le> max a b" by (simp add: algebra_simps)
qed

lemma interpolatePCHIP_A_inside:
  assumes "2 \<le> length x" and "jlt (x ! 0) t" and "jlt t (x ! (length x - 1))"
  shows "interpolatePCHIP_A rd x y [t] =
           [hermite rd x y (intervals rd x)
              (slopes rd (length x) (intervals rd x) (secants rd x y (intervals rd x)))
              (find_interval x (length x) t 0) t]"
proof -
  have len: "0 < length x" "length x - 1 < length x" using assms(1) by auto
  have inside: "\<not> jle t (item x 0)" "\<not> jge t (item x (length x - 1))"
    unfolding item_nth [OF len(1)] item_nth [OF len(2)] jge_def
    using assms(2,3) by (simp_all add: jlt_not_jle)
  have "interpolatePCHIP_A rd x y [t] ! 0 =
      hermite rd x y (intervals rd x)
        (slopes rd (length x) (intervals rd x) (secants rd x y (intervals rd x)))
        (find_interval x (length x) t 0) t"
    using interpolatePCHIP_A_nth [OF assms(1), of 0 "[t]" rd y] inside by simp
  moreover have "interpolatePCHIP_A rd x y [t] = [interpolatePCHIP_A rd x y [t] ! 0]"
    by (rule singleton_nth0) simp
  ultimately show ?thesis by simp
qed

lemma slopes_exact_finite:
  assumes sorted: "sorted_wrt (<) xs" and len: "length ys = length xs" and n: "2 \<le> length xs"
    and j: "j < length xs"
  shows "\<exists>v. item (slopes Fin (length xs) (intervals Fin (map Fin xs))
                 (secants Fin (map Fin xs) (map Fin ys) (intervals Fin (map Fin xs)))) j = Fin v"
proof -
  let ?h = "intervals Fin (map Fin xs)"
  let ?d = "secants Fin (map Fin xs) (map Fin ys) ?h"
  have d: "item ?d k = Fin (secant xs ys k)" if "k + 1 < length xs" for k
    using sorted len that by (rule item_secants)
  have h: "item ?h k = Fin (xs ! (k + 1) - xs ! k)" if "k + 1 < length xs" for k
    using that by (rule item_intervals)
  show ?thesis
  proof (cases "j = 0")
    case True
    have "item ?d 0 = Fin (secant xs ys 0)" using d [of 0] n by simp
    then show ?thesis using True j by (simp add: item_slopes)
  next
    case nz: False
    show ?thesis
    proof (cases "j = length xs - 1")
      case True
      have "item ?d (length xs - 2) = Fin (secant xs ys (length xs - 2))"
        using d [of "length xs - 2"] n by simp
      then show ?thesis using True nz j by (simp add: item_slopes)
    next
      case False
      then have a: "j - 1 + 1 < length xs" "j + 1 < length xs" using j nz by simp_all
      have "item (slopes Fin (length xs) ?h ?d) j = slope_at Fin ?h ?d j"
        unfolding item_slopes [OF j] using False nz by (simp only: if_False)
      with slope_at_exact(1) [OF d [OF a(1)] d [OF a(2)] h [OF a(1)] h [OF a(2)]]
      show ?thesis by simp
    qed
  qed
qed

lemma slopes_exact_zero:
  assumes sorted: "sorted_wrt (<) xs" and len: "length ys = length xs"
    and j: "1 \<le> j" "j + 1 < length xs"
    and sign: "secant xs ys (j - 1) * secant xs ys j \<le> 0"
  shows "item (slopes Fin (length xs) (intervals Fin (map Fin xs))
                 (secants Fin (map Fin xs) (map Fin ys) (intervals Fin (map Fin xs)))) j = Fin 0"
proof -
  let ?h = "intervals Fin (map Fin xs)"
  let ?d = "secants Fin (map Fin xs) (map Fin ys) ?h"
  have a: "j - 1 + 1 < length xs" using j by simp
  have d0: "item ?d (j - 1) = Fin (secant xs ys (j - 1))"
    using sorted len a by (rule item_secants)
  have d1: "item ?d j = Fin (secant xs ys j)"
    using sorted len j(2) by (rule item_secants)
  have h0: "item ?h (j - 1) = Fin (xs ! (j - 1 + 1) - xs ! (j - 1))"
    using a by (rule item_intervals)
  have h1: "item ?h j = Fin (xs ! (j + 1) - xs ! j)"
    using j(2) by (rule item_intervals)
  have ne: "j \<noteq> 0" "j \<noteq> length xs - 1" "j < length xs" using j by auto
  have "item (slopes Fin (length xs) ?h ?d) j = slope_at Fin ?h ?d j"
    unfolding item_slopes [OF ne(3)] using ne(1,2) by (simp only: if_False)
  with slope_at_exact(2) [OF d0 d1 h0 h1 sign] show ?thesis by simp
qed

text \<open>
  C3, as amended. In exact arithmetic Strategy A does not leave the range of the two
  bounding samples at an interval whose two ends are interior samples where the adjacent
  secants disagree in sign or are zero: for real samples with strictly increasing
  abscissas and a target in \<open>[x[i], x[i + 1]]\<close>, the value lies between
  \<open>min(y[i], y[i + 1])\<close> and \<open>max(y[i], y[i + 1])\<close>.
\<close>

theorem no_overshoot_exact:
  assumes sorted: "sorted_wrt (<) xs" and len: "length ys = length xs"
    and i: "1 \<le> i" "i + 2 < length xs"
    and left: "secant xs ys (i - 1) * secant xs ys i \<le> 0"
    and right: "secant xs ys i * secant xs ys (i + 1) \<le> 0"
    and t: "xs ! i \<le> t" "t \<le> xs ! (i + 1)"
  shows "\<exists>r. interpolatePCHIP_A Fin (map Fin xs) (map Fin ys) [Fin t] = [Fin r] \<and>
             min (ys ! i) (ys ! (i + 1)) \<le> r \<and> r \<le> max (ys ! i) (ys ! (i + 1))"
proof -
  let ?x = "map Fin xs" and ?y = "map Fin ys"
  let ?h = "intervals Fin ?x"
  let ?d = "secants Fin ?x ?y ?h"
  let ?m = "slopes Fin (length xs) ?h ?d"
  define r where "r = find_interval ?x (length ?x) (Fin t) 0"
  have n: "2 \<le> length ?x" using i by simp
  have inc: "increasing ?x" using sorted by (rule increasing_map_Fin)
  have L: "0 < length xs" "i < length xs" "i + 1 < length xs" "length xs - 1 < length xs"
    "i - 1 < length xs"
    using i by auto
  have "xs ! 0 < xs ! i" using sorted i by (intro strict_nth) simp_all
  with t(1) have "xs ! 0 < t" by linarith
  then have lo: "jlt (?x ! 0) (Fin t)" using L by simp
  have "xs ! (i + 1) < xs ! (length xs - 1)" using sorted i by (intro strict_nth) simp_all
  with t(2) have "t < xs ! (length xs - 1)" by linarith
  then have hi: "jlt (Fin t) (?x ! (length ?x - 1))" using L by simp
  have res: "interpolatePCHIP_A Fin ?x ?y [Fin t] = [hermite Fin ?x ?y ?h ?m r (Fin t)]"
    using interpolatePCHIP_A_inside [OF n lo hi, of Fin ?y] by (simp add: r_def)
  have found: "r + 1 < length ?x" "jlt (?x ! r) (Fin t)" "jle (Fin t) (?x ! (r + 1))"
    unfolding r_def using inc n lo hi by (rule find_interval_inside)+
  have mi: "item ?m i = Fin 0"
    using sorted len i(1) _ left by (rule slopes_exact_zero) (use i in simp)
  have mi1: "item ?m (i + 1) = Fin 0"
    using sorted len _ _ _ by (rule slopes_exact_zero) (use i right in simp_all)
  show ?thesis
  proof (cases "t = xs ! i")
    case False
    with t(1) have lt: "xs ! i < t" by simp
    have "i = r"
    proof (rule interval_unique [OF inc _ _ _ found])
      show "i + 1 < length ?x" using i by simp
      show "jlt (?x ! i) (Fin t)" using lt L by simp
      show "jle (Fin t) (?x ! (i + 1))" using t(2) L by simp
    qed
    define hk where "hk = xs ! (i + 1) - xs ! i"
    have "xs ! i < xs ! (i + 1)" using sorted i by (intro strict_nth) simp_all
    then have hk: "0 < hk" by (simp add: hk_def)
    define s where "s = (t - xs ! i) / hk"
    have s: "0 \<le> s" "s \<le> 1" using lt t(2) hk by (simp_all add: s_def hk_def)
    define w where "w = - 2 * s ^ 3 + 3 * s ^ 2"
    have w: "0 \<le> w" "w \<le> 1" unfolding w_def using s by (rule basis_bounds)+
    have "hermite Fin ?x ?y ?h ?m i (Fin t) =
        Fin ((2 * ((t - xs ! i) / hk) ^ 3 - 3 * ((t - xs ! i) / hk) ^ 2 + 1) * ys ! i +
          (((t - xs ! i) / hk) ^ 3 - 2 * ((t - xs ! i) / hk) ^ 2 + (t - xs ! i) / hk) * hk * 0 +
          (- 2 * ((t - xs ! i) / hk) ^ 3 + 3 * ((t - xs ! i) / hk) ^ 2) * ys ! (i + 1) +
          (((t - xs ! i) / hk) ^ 3 - ((t - xs ! i) / hk) ^ 2) * hk * 0)"
    proof (rule hermite_exact)
      show "item ?x i = Fin (xs ! i)" using i by (simp add: item_map_Fin)
      show "item ?y i = Fin (ys ! i)" using i len by (simp add: item_map_Fin)
      show "item ?y (i + 1) = Fin (ys ! (i + 1))" using i len by (simp add: item_map_Fin)
      show "item ?h i = Fin hk" unfolding hk_def using i by (intro item_intervals) simp
      show "hk \<noteq> 0" using hk by simp
      show "item ?m i = Fin 0" by (rule mi)
      show "item ?m (i + 1) = Fin 0" by (rule mi1)
    qed
    also have "\<dots> = Fin ((1 - w) * ys ! i + w * ys ! (i + 1))"
      unfolding w_def s_def by (simp add: algebra_simps)
    finally have "hermite Fin ?x ?y ?h ?m r (Fin t) = Fin ((1 - w) * ys ! i + w * ys ! (i + 1))"
      using \<open>i = r\<close> by simp
    with res have "interpolatePCHIP_A Fin ?x ?y [Fin t] = [Fin ((1 - w) * ys ! i + w * ys ! (i + 1))]"
      by simp
    moreover have "min (ys ! i) (ys ! (i + 1)) \<le> (1 - w) * ys ! i + w * ys ! (i + 1)"
      "(1 - w) * ys ! i + w * ys ! (i + 1) \<le> max (ys ! i) (ys ! (i + 1))"
      using w by (rule convex_between)+
    ultimately show ?thesis by blast
  next
    case True
    define k where "k = i - 1"
    have k: "k + 1 = i" using i by (simp add: k_def)
    have "xs ! k < xs ! i" using sorted i k by (intro strict_nth) simp_all
    have "k = r"
    proof (rule interval_unique [OF inc _ _ _ found])
      show "k + 1 < length ?x" using i k by simp
      show "jlt (?x ! k) (Fin t)"
        using \<open>xs ! k < xs ! i\<close> True L(5) by (simp add: k_def)
      show "jle (Fin t) (?x ! (k + 1))" unfolding k using True L by simp
    qed
    define hk where "hk = xs ! i - xs ! k"
    have hk: "hk \<noteq> 0" using \<open>xs ! k < xs ! i\<close> by (simp add: hk_def)
    have one: "(t - xs ! k) / hk = 1" using hk True by (simp add: hk_def)
    obtain mk where mk: "item ?m k = Fin mk"
      using slopes_exact_finite [OF sorted len, of k] i k by auto
    have "hermite Fin ?x ?y ?h ?m k (Fin t) =
        Fin ((2 * ((t - xs ! k) / hk) ^ 3 - 3 * ((t - xs ! k) / hk) ^ 2 + 1) * ys ! k +
          (((t - xs ! k) / hk) ^ 3 - 2 * ((t - xs ! k) / hk) ^ 2 + (t - xs ! k) / hk) * hk * mk +
          (- 2 * ((t - xs ! k) / hk) ^ 3 + 3 * ((t - xs ! k) / hk) ^ 2) * ys ! i +
          (((t - xs ! k) / hk) ^ 3 - ((t - xs ! k) / hk) ^ 2) * hk * 0)"
    proof (rule hermite_exact)
      show "item ?x k = Fin (xs ! k)" using i k by (simp add: item_map_Fin)
      show "item ?y k = Fin (ys ! k)" using i k len by (simp add: item_map_Fin)
      show "item ?y (k + 1) = Fin (ys ! i)" unfolding k using i len by (simp add: item_map_Fin)
      show "item ?h k = Fin hk" unfolding hk_def using item_intervals [of k xs] i k by simp
      show "hk \<noteq> 0" by (rule hk)
      show "item ?m k = Fin mk" by (rule mk)
      show "item ?m (k + 1) = Fin 0" unfolding k by (rule mi)
    qed
    also have "\<dots> = Fin (ys ! i)" unfolding one by simp
    finally have "hermite Fin ?x ?y ?h ?m r (Fin t) = Fin (ys ! i)"
      using \<open>k = r\<close> by simp
    with res have "interpolatePCHIP_A Fin ?x ?y [Fin t] = [Fin (ys ! i)]" by simp
    then show ?thesis by auto
  qed
qed

lemma binary64_round_tie:
  assumes n: "n \<le> 1074"
    and lo: "2 ^ 52 \<le> \<bar>x\<bar> * 2 ^ n" and hi: "\<bar>x\<bar> * 2 ^ n < 2 ^ 53"
    and j: "\<bar>x\<bar> * 2 ^ n = of_int j + 1 / 2"
  shows "binary64 x = Fin (sgn x * of_int (if even j then j else j + 1) / 2 ^ n)"
proof -
  define e where "e = 52 - int n"
  define k where "k = (if even j then j else j + 1)"
  have p: "(2::real) powi (e - 52) = 1 / 2 ^ n"
    by (simp add: e_def power_int_minus_divide)
  have pe: "(2::real) powi e = 2 ^ 52 / 2 ^ n"
    by (simp add: e_def power_int_diff)
  have pe1: "(2::real) powi (e + 1) = 2 ^ 53 / 2 ^ n"
    unfolding two_powi_Suc pe by simp
  have pos: "0 < \<bar>x\<bar>" using lo by (cases "x = 0") simp_all
  have r: "round_even (\<bar>x\<bar> / 2 powi (e - 52)) = k"
    unfolding p k_def using round_even_tie [OF j] by simp
  have a: "binary64 \<bar>x\<bar> = Fin (of_int k * 2 powi (e - 52))"
  proof (rule binary64_pos [OF pos _ _ _ _ r])
    show "- 1022 \<le> e" using n by (simp add: e_def)
    show "e \<le> 1022" by (simp add: e_def)
    show "2 powi e \<le> \<bar>x\<bar>" unfolding pe using lo by (simp add: field_simps)
    show "\<bar>x\<bar> < 2 powi (e + 1)" unfolding pe1 using hi by (simp add: field_simps)
  qed
  show ?thesis
  proof (cases "0 < x")
    case True
    with a show ?thesis by (simp add: p k_def)
  next
    case False
    with pos have neg: "x < 0" by simp
    then have "binary64 x = jneg (binary64 \<bar>x\<bar>)"
      using binary64_minus [of "\<bar>x\<bar>"] by simp
    with a neg show ?thesis by (simp add: p k_def)
  qed
qed

lemma hermite_steps:
  assumes "item x k = xk" and "item y k = yk" and "item y (k + 1) = yk1"
    and "item h k = hk" and "item m k = mk" and "item m (k + 1) = mk1"
    and "\<not> jeq hk (Fin 0)"
    and "jsub rd tx xk = d" and "jdiv rd d hk = t"
    and "jmul rd t t = t2" and "jmul rd t2 t = t3"
    and "jmul rd (Fin 2) t3 = p1" and "jmul rd (Fin 3) t2 = p2"
    and "jsub rd p1 p2 = p3" and "jadd rd p3 (Fin 1) = h00"
    and "jmul rd (Fin 2) t2 = p4" and "jsub rd t3 p4 = p5" and "jadd rd p5 t = h10"
    and "jmul rd (Fin (- 2)) t3 = p6" and "jadd rd p6 p2 = h01"
    and "jsub rd t3 t2 = h11"
    and "jmul rd h00 yk = q1" and "jmul rd h10 hk = q2" and "jmul rd q2 mk = q3"
    and "jadd rd q1 q3 = q4" and "jmul rd h01 yk1 = q5" and "jadd rd q4 q5 = q6"
    and "jmul rd h11 hk = q7" and "jmul rd q7 mk1 = q8" and "jadd rd q6 q8 = res"
    and "isFinite res"
  shows "hermite rd x y h m k tx = res"
  unfolding hermite_def Let_def using assms by (simp only: if_False if_True)

lemma flat_intervals: "intervals binary64 four_samples = [Fin 10, Fin 10, Fin 10]"
  by (simp add: intervals_def four_samples_def item_def jsub_def upt_rec)

lemma flat_secants:
  "secants binary64 four_samples flat_values [Fin 10, Fin 10, Fin 10] = [Fin 0, Fin 0, Fin 0]"
  by (simp add: secants_def four_samples_def flat_values_def item_def jsub_def upt_rec)

lemma flat_slopes:
  "slopes binary64 (length four_samples) [Fin 10, Fin 10, Fin 10] [Fin 0, Fin 0, Fin 0] =
     [Fin 0, Fin 0, Fin 0, Fin 0]"
  by (simp add: slopes_def slope_at_def four_samples_def item_def upt_rec jle_def)

lemma flat_interval: "find_interval four_samples (length four_samples) (Fin 13) 0 = 1"
  by (simp add: find_interval.simps four_samples_def item_def)

lemma flat_hermite:
  "hermite binary64 four_samples flat_values [Fin 10, Fin 10, Fin 10] [Fin 0, Fin 0, Fin 0, Fin 0]
     1 (Fin 13) = Fin (6755399441055745 / 2251799813685248)"
proof -
  have i1: "item four_samples 1 = Fin 10" by (simp add: four_samples_def item_def)
  have i2: "item flat_values 1 = Fin 3" by (simp add: flat_values_def item_def)
  have i3: "item flat_values (1 + 1) = Fin 3" by (simp add: flat_values_def item_def)
  have i4: "item [Fin 10, Fin 10, Fin 10] 1 = Fin 10" by (simp add: item_def)
  have i5: "item [Fin 0, Fin 0, Fin 0, Fin 0] 1 = Fin 0" by (simp add: item_def)
  have i6: "item [Fin 0, Fin 0, Fin 0, Fin 0] (1 + 1) = Fin 0" by (simp add: item_def)
  have i7: "\<not> jeq (Fin 10) (Fin 0)" by simp
  have s1: "jsub binary64 (Fin 13) (Fin 10) = (Fin 3)"
    by (simp add: jsub_def)
  have s2: "jdiv binary64 (Fin 3) (Fin 10) = (Fin (5404319552844595 / 18014398509481984))"
    using binary64_round [of 54 "3 / 10" 5404319552844595] by (simp add: jsub_def)
  have s3: "jmul binary64 (Fin (5404319552844595 / 18014398509481984)) (Fin (5404319552844595 / 18014398509481984)) = (Fin (3242591731706757 / 36028797018963968))"
    using binary64_round [of 56 "(5404319552844595 / 18014398509481984) * (5404319552844595 / 18014398509481984)" 6485183463413514] by (simp add: jsub_def)
  have s4: "jmul binary64 (Fin (3242591731706757 / 36028797018963968)) (Fin (5404319552844595 / 18014398509481984)) = (Fin (7782220156096217 / 288230376151711744))"
    using binary64_round [of 58 "(3242591731706757 / 36028797018963968) * (5404319552844595 / 18014398509481984)" 7782220156096217] by (simp add: jsub_def)
  have s5: "jmul binary64 (Fin 2) (Fin (7782220156096217 / 288230376151711744)) = (Fin (7782220156096217 / 144115188075855872))"
    using binary64_dyadic [of "7782220156096217" 57] by (simp add: jsub_def)
  have s6: "jmul binary64 (Fin 3) (Fin (3242591731706757 / 36028797018963968)) = (Fin (607985949695017 / 2251799813685248))"
    using binary64_round_tie [of 54 "3 * (3242591731706757 / 36028797018963968)" 4863887597560135] by (simp add: jsub_def)
  have s7: "jsub binary64 (Fin (7782220156096217 / 144115188075855872)) (Fin (607985949695017 / 2251799813685248)) = (Fin (- (3891110078048109 / 18014398509481984)))"
    using binary64_round [of 55 "(7782220156096217 / 144115188075855872) - (607985949695017 / 2251799813685248)" 7782220156096218] by (simp add: jsub_def)
  have s8: "jadd binary64 (Fin (- (3891110078048109 / 18014398509481984))) (Fin 1) = (Fin (3530822107858469 / 4503599627370496))"
    using binary64_round_tie [of 53 "(- (3891110078048109 / 18014398509481984)) + 1" 7061644215716937] by (simp add: jsub_def)
  have s9: "jmul binary64 (Fin 2) (Fin (3242591731706757 / 36028797018963968)) = (Fin (3242591731706757 / 18014398509481984))"
    using binary64_dyadic [of "3242591731706757" 54] by (simp add: jsub_def)
  have s10: "jsub binary64 (Fin (7782220156096217 / 288230376151711744)) (Fin (3242591731706757 / 18014398509481984)) = (Fin (- (5512405943901487 / 36028797018963968)))"
    using binary64_round [of 55 "(7782220156096217 / 288230376151711744) - (3242591731706757 / 18014398509481984)" 5512405943901487] by (simp add: jsub_def)
  have s11: "jadd binary64 (Fin (- (5512405943901487 / 36028797018963968))) (Fin (5404319552844595 / 18014398509481984)) = (Fin (5296233161787703 / 36028797018963968))"
    using binary64_dyadic [of "5296233161787703" 55] by (simp add: jsub_def)
  have s12: "jmul binary64 (Fin (- 2)) (Fin (7782220156096217 / 288230376151711744)) = (Fin (- (7782220156096217 / 144115188075855872)))"
    using binary64_dyadic [of "-7782220156096217" 57] by (simp add: jsub_def)
  have s13: "jadd binary64 (Fin (- (7782220156096217 / 144115188075855872))) (Fin (607985949695017 / 2251799813685248)) = (Fin (3891110078048109 / 18014398509481984))"
    using binary64_round [of 55 "(- (7782220156096217 / 144115188075855872)) + (607985949695017 / 2251799813685248)" 7782220156096218] by (simp add: jsub_def)
  have s14: "jsub binary64 (Fin (7782220156096217 / 288230376151711744)) (Fin (3242591731706757 / 36028797018963968)) = (Fin (- (1134907106097365 / 18014398509481984)))"
    using binary64_round [of 56 "(7782220156096217 / 288230376151711744) - (3242591731706757 / 36028797018963968)" 4539628424389460] by (simp add: jsub_def)
  have s15: "jmul binary64 (Fin (3530822107858469 / 4503599627370496)) (Fin 3) = (Fin (662029145223463 / 281474976710656))"
    using binary64_round_tie [of 51 "(3530822107858469 / 4503599627370496) * 3" 5296233161787703] by (simp add: jsub_def)
  have s16: "jmul binary64 (Fin (5296233161787703 / 36028797018963968)) (Fin 10) = (Fin (6620291452234629 / 4503599627370496))"
    using binary64_round [of 52 "(5296233161787703 / 36028797018963968) * 10" 6620291452234629] by (simp add: jsub_def)
  have s17: "jmul binary64 (Fin (6620291452234629 / 4503599627370496)) (Fin 0) = (Fin 0)"
    by (simp add: jsub_def)
  have s18: "jadd binary64 (Fin (662029145223463 / 281474976710656)) (Fin 0) = (Fin (662029145223463 / 281474976710656))"
    using binary64_dyadic [of "662029145223463" 48] by (simp add: jsub_def)
  have s19: "jmul binary64 (Fin (3891110078048109 / 18014398509481984)) (Fin 3) = (Fin (1459166279268041 / 2251799813685248))"
    using binary64_round_tie [of 53 "(3891110078048109 / 18014398509481984) * 3" 5836665117072163] by (simp add: jsub_def)
  have s20: "jadd binary64 (Fin (662029145223463 / 281474976710656)) (Fin (1459166279268041 / 2251799813685248)) = (Fin (6755399441055745 / 2251799813685248))"
    using binary64_dyadic [of "6755399441055745" 51] by (simp add: jsub_def)
  have s21: "jmul binary64 (Fin (- (1134907106097365 / 18014398509481984))) (Fin 10) = (Fin (- (5674535530486825 / 9007199254740992)))"
    using binary64_dyadic [of "-5674535530486825" 53] by (simp add: jsub_def)
  have s22: "jmul binary64 (Fin (- (5674535530486825 / 9007199254740992))) (Fin 0) = (Fin 0)"
    by (simp add: jsub_def)
  have s23: "jadd binary64 (Fin (6755399441055745 / 2251799813685248)) (Fin 0) = (Fin (6755399441055745 / 2251799813685248))"
    using binary64_dyadic [of "6755399441055745" 51] by (simp add: jsub_def)
  have fin: "isFinite (Fin (6755399441055745 / 2251799813685248))" by simp
  show ?thesis
    by (rule hermite_steps [OF i1 i2 i3 i4 i5 i6 i7 s1 s2 s3 s4 s5 s6 s7 s8 s9 s10 s11 s12 s13
          s14 s15 s16 s17 s18 s19 s20 s21 s22 s23 fin])
qed

lemma flat_result:
  "interpolatePCHIP_A binary64 four_samples flat_values [Fin 13] =
     [Fin (6755399441055745 / 2251799813685248)]"
proof -
  have "2 \<le> length four_samples" "jlt (four_samples ! 0) (Fin 13)"
    "jlt (Fin 13) (four_samples ! (length four_samples - 1))"
    by (simp_all add: four_samples_def)
  from interpolatePCHIP_A_inside [OF this, of binary64 flat_values]
  show ?thesis
    unfolding flat_intervals flat_secants flat_slopes flat_interval flat_hermite .
qed

text \<open>
  C3, as stated, fails in double precision: for the flat samples \<open>x = [0, 10, 20, 30]\<close>,
  \<open>y = [3, 3, 3, 3]\<close> and the target 13, Strategy A returns
  \<open>6755399441055745 / 2251799813685248\<close>, the double after 3, which is above the maximum
  of the two bounding samples.
\<close>

theorem overshoot_in_double_precision:
  "\<not> (\<forall>xs ys i t.
        sorted_wrt (<) xs \<and> length ys = length xs \<and> 1 \<le> i \<and> i + 2 < length xs \<and>
        secant xs ys (i - 1) * secant xs ys i \<le> 0 \<and>
        secant xs ys i * secant xs ys (i + 1) \<le> 0 \<and>
        xs ! i \<le> t \<and> t \<le> xs ! (i + 1) \<longrightarrow>
        (\<exists>r. interpolatePCHIP_A binary64 (map Fin xs) (map Fin ys) [Fin t] = [Fin r] \<and>
             min (ys ! i) (ys ! (i + 1)) \<le> r \<and> r \<le> max (ys ! i) (ys ! (i + 1))))"
proof
  assume a: "\<forall>xs ys i t.
        sorted_wrt (<) xs \<and> length ys = length xs \<and> 1 \<le> i \<and> i + 2 < length xs \<and>
        secant xs ys (i - 1) * secant xs ys i \<le> 0 \<and>
        secant xs ys i * secant xs ys (i + 1) \<le> 0 \<and>
        xs ! i \<le> t \<and> t \<le> xs ! (i + 1) \<longrightarrow>
        (\<exists>r. interpolatePCHIP_A binary64 (map Fin xs) (map Fin ys) [Fin t] = [Fin r] \<and>
             min (ys ! i) (ys ! (i + 1)) \<le> r \<and> r \<le> max (ys ! i) (ys ! (i + 1)))"
  define xs :: "real list" where "xs = [0, 10, 20, 30]"
  define ys :: "real list" where "ys = [3, 3, 3, 3]"
  have h: "sorted_wrt (<) xs \<and> length ys = length xs \<and> (1::nat) \<le> 1 \<and> 1 + 2 < length xs \<and>
        secant xs ys (1 - 1) * secant xs ys 1 \<le> 0 \<and>
        secant xs ys 1 * secant xs ys (1 + 1) \<le> 0 \<and>
        xs ! 1 \<le> 13 \<and> 13 \<le> xs ! (1 + 1)"
    by (simp add: xs_def ys_def secant_def)
  have m: "map Fin xs = four_samples" "map Fin ys = flat_values"
    by (simp_all add: xs_def ys_def four_samples_def flat_values_def)
  from a h have "\<exists>r. interpolatePCHIP_A binary64 (map Fin xs) (map Fin ys) [Fin 13] = [Fin r] \<and>
             min (ys ! 1) (ys ! (1 + 1)) \<le> r \<and> r \<le> max (ys ! 1) (ys ! (1 + 1))"
    by blast
  then obtain r where "interpolatePCHIP_A binary64 four_samples flat_values [Fin 13] = [Fin r]"
    and "r \<le> max (ys ! 1) (ys ! (1 + 1))"
    unfolding m by blast
  then have "r = 6755399441055745 / 2251799813685248" and "r \<le> 3"
    by (simp_all add: flat_result ys_def)
  then show False by simp
qed

theorem no_overshoot_exact_witness:
  "sorted_wrt (<) sample_times \<and>
   secant sample_times zigzag_values 0 * secant sample_times zigzag_values 1 \<le> 0 \<and>
   secant sample_times zigzag_values 1 * secant sample_times zigzag_values 2 \<le> 0 \<and>
   (\<exists>r. interpolatePCHIP_A Fin (map Fin sample_times) (map Fin zigzag_values) [Fin 13] = [Fin r] \<and>
        0 \<le> r \<and> r \<le> 1)"
proof -
  have h: "sorted_wrt (<) sample_times" "length zigzag_values = length sample_times"
    "(1::nat) \<le> 1" "1 + 2 < length sample_times"
    "secant sample_times zigzag_values (1 - 1) * secant sample_times zigzag_values 1 \<le> 0"
    "secant sample_times zigzag_values 1 * secant sample_times zigzag_values (1 + 1) \<le> 0"
    "sample_times ! 1 \<le> 13" "13 \<le> sample_times ! (1 + 1)"
    by (simp_all add: sample_times_def zigzag_values_def secant_def)
  have v: "min (zigzag_values ! 1) (zigzag_values ! (1 + 1)) = 0"
    "max (zigzag_values ! 1) (zigzag_values ! (1 + 1)) = 1"
    by (simp_all add: zigzag_values_def)
  have s: "secant sample_times zigzag_values 0 * secant sample_times zigzag_values 1 \<le> 0"
    "secant sample_times zigzag_values 1 * secant sample_times zigzag_values 2 \<le> 0"
    by (simp_all add: sample_times_def zigzag_values_def secant_def)
  from no_overshoot_exact [OF h] h(1) s show ?thesis unfolding v by simp
qed

end
